theory Spec2Isabelle
  imports Main "HOL-Library.Sublist" "HOL-Library.AList"
begin

section \<open>Python values used by the address formatter\<close>

text \<open>
  The formatter is Python 2 code working on strings and dictionaries. A string is a
  \<^typ>\<open>string\<close> (a list of characters). An exception is a value of \<open>py_error\<close>, and a
  computation that may raise returns \<open>py_error + 'a\<close> with \<open>Inl\<close> for the exception.
\<close>

datatype py_error = KeyError | TypeError | ValueError | ServiceError

definition bind_err :: "py_error + 'a \<Rightarrow> ('a \<Rightarrow> py_error + 'b) \<Rightarrow> py_error + 'b" where
  "bind_err r f = (case r of Inl e \<Rightarrow> Inl e | Inr x \<Rightarrow> f x)"

subsection \<open>Strings\<close>

text \<open>The characters removed by \<open>str.strip()\<close> and matched by \<open>\s\<close>:
  space, tab, line feed, carriage return, vertical tab and form feed.\<close>

definition is_space :: "char \<Rightarrow> bool" where
  "is_space c = (c \<in> set [CHR 0x20, CHR 0x09, CHR 0x0A, CHR 0x0D, CHR 0x0B, CHR 0x0C])"

definition py_lstrip :: "string \<Rightarrow> string" where
  "py_lstrip s = dropWhile is_space s"

definition py_rstrip :: "string \<Rightarrow> string" where
  "py_rstrip s = rev (dropWhile is_space (rev s))"

definition py_strip :: "string \<Rightarrow> string" where
  "py_strip s = py_rstrip (py_lstrip s)"

text \<open>\<open>line.rstrip('\n')\<close>: only line feeds are removed from the right.\<close>

definition py_rstrip_nl :: "string \<Rightarrow> string" where
  "py_rstrip_nl s = rev (dropWhile (\<lambda>c. c = CHR 0x0A) (rev s))"

text \<open>\<open>sep.join(xs)\<close>.\<close>

fun py_join :: "string \<Rightarrow> string list \<Rightarrow> string" where
  "py_join sep [] = []"
| "py_join sep [x] = x"
| "py_join sep (x # y # ys) = x @ sep @ py_join sep (y # ys)"

text \<open>
  \<open>s.split(sep)\<close> for a non-empty separator: the occurrences of \<open>sep\<close> are found from the
  left and do not overlap; the result always has at least one segment. Python raises
  \<open>ValueError\<close> for the empty separator.
\<close>

fun split_scan :: "string \<Rightarrow> string \<Rightarrow> string list" where
  "split_scan sep [] = [[]]"
| "split_scan sep (c # cs) =
     (if prefix sep (c # cs) then [] # split_scan sep (drop (length sep - 1) cs)
      else (case split_scan sep cs of
              [] \<Rightarrow> [[c]]
            | x # xs \<Rightarrow> (c # x) # xs))"

definition py_split :: "string \<Rightarrow> string \<Rightarrow> py_error + string list" where
  "py_split sep s = (if sep = [] then Inl ValueError else Inr (split_scan sep s))"

text \<open>\<open>s.split()\<close> without argument: the maximal runs of non-whitespace characters.\<close>

fun words_scan :: "string \<Rightarrow> string \<Rightarrow> string list" where
  "words_scan cur [] = (if cur = [] then [] else [rev cur])"
| "words_scan cur (c # cs) =
     (if is_space c then (if cur = [] then words_scan [] cs else rev cur # words_scan [] cs)
      else words_scan (c # cur) cs)"

definition py_split_ws :: "string \<Rightarrow> string list" where
  "py_split_ws s = words_scan [] s"

text \<open>\<open>sub in s\<close> on strings: \<open>sub\<close> occurs in \<open>s\<close> as a contiguous substring.\<close>

fun py_in :: "string \<Rightarrow> string \<Rightarrow> bool" where
  "py_in sub [] = (sub = [])"
| "py_in sub (c # cs) = (prefix sub (c # cs) \<or> py_in sub cs)"

text \<open>\<open>s.replace(old, new)\<close> and \<open>re.sub\<close> with a pattern that is a literal non-empty text
  and a replacement without escapes: every occurrence, found from the left without
  overlap, is replaced.\<close>

fun replace_literal :: "string \<Rightarrow> string \<Rightarrow> string \<Rightarrow> string" where
  "replace_literal pat repl [] = []"
| "replace_literal pat repl (c # cs) =
     (if prefix pat (c # cs) then repl @ replace_literal pat repl (drop (length pat - 1) cs)
      else c # replace_literal pat repl cs)"

text \<open>Upper and lower case of the ASCII letters; every other character is kept.\<close>

definition upper_char :: "char \<Rightarrow> char" where
  "upper_char c =
     (case map_of (zip ''abcdefghijklmnopqrstuvwxyz'' ''ABCDEFGHIJKLMNOPQRSTUVWXYZ'') c of
        None \<Rightarrow> c | Some d \<Rightarrow> d)"

definition lower_char :: "char \<Rightarrow> char" where
  "lower_char c =
     (case map_of (zip ''ABCDEFGHIJKLMNOPQRSTUVWXYZ'' ''abcdefghijklmnopqrstuvwxyz'') c of
        None \<Rightarrow> c | Some d \<Rightarrow> d)"

definition py_upper :: "string \<Rightarrow> string" where
  "py_upper s = map upper_char s"

definition py_lower :: "string \<Rightarrow> string" where
  "py_lower s = map lower_char s"

text \<open>\<open>xs[start:end]\<close> for indices that are not negative.\<close>

definition py_slice :: "'a list \<Rightarrow> nat \<Rightarrow> nat \<Rightarrow> 'a list" where
  "py_slice xs start end = take (end - start) (drop start xs)"

section \<open>Constants of the class \<open>AddressFormatter\<close>\<close>

definition default_splitter :: string where "default_splitter = '' | ''"
definition separator_tag :: string where "separator_tag = ''SEP''"
definition field_separator_tag :: string where "field_separator_tag = ''FSEP''"

definition HOUSE :: string where "HOUSE = ''house''"
definition HOUSE_NUMBER :: string where "HOUSE_NUMBER = ''house_number''"
definition ROAD :: string where "ROAD = ''road''"
definition SUBURB :: string where "SUBURB = ''suburb''"
definition CITY :: string where "CITY = ''city''"
definition STATE :: string where "STATE = ''state''"
definition STATE_DISTRICT :: string where "STATE_DISTRICT = ''state_district''"
definition POSTCODE :: string where "POSTCODE = ''postcode''"
definition COUNTRY :: string where "COUNTRY = ''country''"

definition aliases :: "(string \<times> string) list" where
  "aliases =
    [(''name'', HOUSE),
     (''addr:housename'', HOUSE),
     (''addr:housenumber'', HOUSE_NUMBER),
     (''addr:house_number'', HOUSE_NUMBER),
     (''addr:street'', ROAD),
     (''addr:city'', CITY),
     (''addr:locality'', CITY),
     (''addr:municipality'', CITY),
     (''addr:hamlet'', CITY),
     (''addr:suburb'', SUBURB),
     (''addr:neighbourhood'', SUBURB),
     (''addr:neighborhood'', SUBURB),
     (''addr:district'', SUBURB),
     (''addr:state'', STATE),
     (''addr:province'', STATE),
     (''addr:region'', STATE),
     (''addr:postal_code'', POSTCODE),
     (''addr:postcode'', POSTCODE),
     (''addr:country'', COUNTRY),
     (''street'', ROAD),
     (''street_name'', ROAD),
     (''residential'', ROAD),
     (''hamlet'', CITY),
     (''neighborhood'', SUBURB),
     (''neighbourhood'', SUBURB),
     (''city_district'', SUBURB),
     (''state_code'', STATE),
     (''country_name'', COUNTRY),
     (''postal_code'', POSTCODE),
     (''post_code'', POSTCODE)]"

definition MINIMAL_COMPONENT_KEYS :: "string list list" where
  "MINIMAL_COMPONENT_KEYS = [[ROAD, HOUSE_NUMBER], [ROAD, HOUSE], [ROAD, POSTCODE]]"

section \<open>Template preprocessing\<close>

text \<open>\<open>post_suburb_keys\<close> is the pattern \<open>city|state|state_district|postcode|country\<close>
  compiled with \<open>re.I\<close>; \<open>search\<close> succeeds when one of the words occurs in the line,
  whatever the case of its letters.\<close>

definition post_suburb_keys_search :: "string \<Rightarrow> bool" where
  "post_suburb_keys_search line =
     list_ex (\<lambda>k. py_in k (py_lower line)) [CITY, STATE, STATE_DISTRICT, POSTCODE, COUNTRY]"

definition suburb_placeholder :: string where
  "suburb_placeholder = ''{{{suburb}}}''"

text \<open>The loop of \<open>add_suburb_tags\<close>: \<open>new_components\<close> is the list built so far.\<close>

fun add_suburb_loop :: "bool \<Rightarrow> string list \<Rightarrow> string list \<Rightarrow> string list" where
  "add_suburb_loop suburb_included new_components [] = new_components"
| "add_suburb_loop suburb_included new_components (line # lines) =
     (let post_suburb = post_suburb_keys_search line;
          new_components = new_components @ [py_rstrip_nl line];
          new_components =
            (if py_in ''road'' line \<and> \<not> suburb_included \<and> \<not> post_suburb
             then new_components @ [suburb_placeholder] else new_components)
      in add_suburb_loop suburb_included new_components lines)"

definition add_suburb_tags :: "string \<Rightarrow> string" where
  "add_suburb_tags template =
     (let suburb_included = py_in ''suburb'' template
      in py_join [CHR 0x0A]
           (add_suburb_loop suburb_included [] (split_scan [CHR 0x0A] template)))"

text \<open>\<open>tag_template_separators\<close>: three substitutions with literal patterns; the
  replacement texts are the format strings with \<open>separator_tag\<close> filled in.\<close>

definition tag_template_separators :: "string \<Rightarrow> string" where
  "tag_template_separators template =
     (let template = replace_literal ''},'' (''} ,/'' @ separator_tag @ '' '') template;
          template = replace_literal ''}-'' (''} -/'' @ separator_tag @ '' '') template;
          template = replace_literal '' - '' ('' -/'' @ separator_tag @ '' '') template
      in template)"

section \<open>External services\<close>

text \<open>
  The tokenizer (\<open>postal.text.tokenize\<close>), the regular expression engine (\<open>re.sub\<close> with
  the patterns of the rule files) and the template engine (\<open>pystache.render\<close>) are
  not part of the formatter: they are parameters of the model. \<open>tokenize_raw\<close> gives
  (offset, length, category) triples, \<open>tokenize\<close> gives (text, category) pairs. The
  template engine receives the template, the helper \<open>first\<close> when one is passed, and
  the bindings. \<open>re_sub\<close> and the template engine may raise.
\<close>

datatype token_type = COMMA | HYPHEN | WORD | PUNCT

type_synonym dict = "(string \<times> string) list"

record services =
  tokenize_raw :: "string \<Rightarrow> (nat \<times> nat \<times> token_type) list"
  tokenize :: "string \<Rightarrow> (string \<times> token_type) list"
  re_sub :: "string \<Rightarrow> string \<Rightarrow> string \<Rightarrow> py_error + string"
  pystache_render ::
    "string \<Rightarrow> (string \<Rightarrow> py_error + string) option \<Rightarrow> dict \<Rightarrow> py_error + string"

section \<open>Dictionaries\<close>

text \<open>
  A dictionary of components is an association list with distinct keys; the order of the
  list is the order in which \<open>keys()\<close> enumerates it, which Python 2 leaves
  unspecified. \<open>d[k] = v\<close> is \<open>AList.update\<close>; \<open>d.pop(k)\<close> raises \<open>KeyError\<close> when
  the key is missing.
\<close>

definition dict_keys :: "dict \<Rightarrow> string list" where
  "dict_keys d = map fst d"

definition dict_has :: "dict \<Rightarrow> string \<Rightarrow> bool" where
  "dict_has d k = (k \<in> set (dict_keys d))"

definition dict_pop :: "dict \<Rightarrow> string \<Rightarrow> py_error + (string \<times> dict)" where
  "dict_pop d k =
     (case map_of d k of
        None \<Rightarrow> Inl KeyError
      | Some v \<Rightarrow> Inr (v, AList.delete k d))"

section \<open>The rule table\<close>

text \<open>
  A value of the loaded YAML file is either a mapping with the optional keys
  \<open>address_template\<close>, \<open>replace\<close> and \<open>postformat_replace\<close> (and other keys the
  formatter does not read, kept in \<open>other_keys\<close>), or a bare template text.
\<close>

type_synonym rules = "(string \<times> string) list"

record template_record =
  address_template :: "string option"
  replace :: "rules option"
  postformat_replace :: "rules option"
  other_keys :: "(string \<times> string) list"

datatype config_value = TemplateText string | TemplateRecord template_record

text \<open>Python truth value of a configuration value: a non-empty text or a non-empty
  mapping.\<close>

fun truthy :: "config_value \<Rightarrow> bool" where
  "truthy (TemplateText t) = (t \<noteq> [])"
| "truthy (TemplateRecord r) =
     (address_template r \<noteq> None \<or> replace r \<noteq> None \<or> postformat_replace r \<noteq> None
      \<or> other_keys r \<noteq> [])"

record formatter =
  config :: "(string \<times> config_value) list"
  splitter :: string

text \<open>\<open>load_config\<close>, after the YAML file has been read into \<open>raw\<close>.\<close>

definition load_config_value :: "config_value \<Rightarrow> config_value" where
  "load_config_value v =
     (case v of
        TemplateRecord r \<Rightarrow>
          (let r = (case address_template r of
                      None \<Rightarrow> r
                    | Some t \<Rightarrow>
                        if t \<noteq> [] then r\<lparr>address_template := Some (add_suburb_tags t)\<rparr> else r);
               r = (case postformat_replace r of
                      None \<Rightarrow> r
                    | Some rs \<Rightarrow>
                        if rs \<noteq> []
                        then r\<lparr>postformat_replace :=
                               Some (map (\<lambda>(pattern, replacement).
                                            (pattern, replace_literal ''$'' [CHR 0x5C] replacement)) rs)\<rparr>
                        else r)
           in TemplateRecord r)
      | TemplateText t \<Rightarrow> TemplateText (add_suburb_tags t))"

definition load_config :: "(string \<times> config_value) list \<Rightarrow> (string \<times> config_value) list" where
  "load_config raw = map (\<lambda>(key, v). (key, load_config_value v)) raw"

text \<open>\<open>country_template\<close>: the default argument \<open>self.config['default']\<close> is evaluated
  before the lookup, so a table without \<open>default\<close> raises \<open>KeyError\<close>.\<close>

definition country_template :: "formatter \<Rightarrow> string \<Rightarrow> py_error + config_value" where
  "country_template F c =
     (case map_of (config F) ''default'' of
        None \<Rightarrow> Inl KeyError
      | Some d \<Rightarrow> Inr (case map_of (config F) c of None \<Rightarrow> d | Some t \<Rightarrow> t))"

section \<open>Alias normalization and the minimal-components gate\<close>

text \<open>
  \<open>replace_aliases\<close> mutates the dictionary while it runs over the snapshot \<open>keys()\<close>.
  The result is the outcome (an exception or \<open>None\<close>) and the dictionary as it is
  left.
\<close>

fun replace_aliases_loop :: "dict \<Rightarrow> string list \<Rightarrow> (py_error + unit) \<times> dict" where
  "replace_aliases_loop components [] = (Inr (), components)"
| "replace_aliases_loop components (k # ks) =
     (case map_of aliases k of
        None \<Rightarrow> replace_aliases_loop components ks
      | Some new_key \<Rightarrow>
          if new_key \<noteq> [] \<and> \<not> dict_has components new_key
          then (case dict_pop components k of
                  Inl e \<Rightarrow> (Inl e, components)
                | Inr (v, popped) \<Rightarrow> replace_aliases_loop (AList.update new_key v popped) ks)
          else replace_aliases_loop components ks)"

definition replace_aliases :: "dict \<Rightarrow> (py_error + unit) \<times> dict" where
  "replace_aliases components = replace_aliases_loop components (dict_keys components)"

fun minimal_components_loop :: "dict \<Rightarrow> string list list \<Rightarrow> bool" where
  "minimal_components_loop components [] = False"
| "minimal_components_loop components (component_list # rest) =
     (if list_all (\<lambda>c. dict_has components c) component_list then True
      else minimal_components_loop components rest)"

definition minimal_components :: "dict \<Rightarrow> bool" where
  "minimal_components components = minimal_components_loop components MINIMAL_COMPONENT_KEYS"

section \<open>Replacement rules\<close>

fun apply_rules_loop ::
  "services \<Rightarrow> string \<Rightarrow> string \<Rightarrow> rules \<Rightarrow> dict \<Rightarrow> (py_error + unit) \<times> dict" where
  "apply_rules_loop S key v [] components = (Inr (), components)"
| "apply_rules_loop S key v ((regex, replacement) # rs) components =
     (case re_sub S regex replacement v of
        Inl e \<Rightarrow> (Inl e, components)
      | Inr v' \<Rightarrow> apply_rules_loop S key v' rs (AList.update key v' components))"

fun apply_replacements_loop ::
  "services \<Rightarrow> rules \<Rightarrow> string list \<Rightarrow> dict \<Rightarrow> (py_error + unit) \<times> dict" where
  "apply_replacements_loop S rs [] components = (Inr (), components)"
| "apply_replacements_loop S rs (key # keys) components =
     (case map_of components key of
        None \<Rightarrow> (Inl KeyError, components)
      | Some v \<Rightarrow>
          (case apply_rules_loop S key v rs components of
             (Inl e, components') \<Rightarrow> (Inl e, components')
           | (Inr u, components') \<Rightarrow> apply_replacements_loop S rs keys components'))"

definition apply_replacements ::
  "services \<Rightarrow> template_record \<Rightarrow> dict \<Rightarrow> (py_error + unit) \<times> dict" where
  "apply_replacements S template components =
     (case replace template of
        None \<Rightarrow> (Inr (), components)
      | Some rs \<Rightarrow>
          if rs = [] then (Inr (), components)
          else apply_replacements_loop S rs (dict_keys components) components)"

text \<open>The first part of \<open>post_replacements\<close>: split on the splitter, strip, keep the
  first occurrence of every component, join again.\<close>

fun dedup_loop :: "string list \<Rightarrow> string set \<Rightarrow> string list \<Rightarrow> string list" where
  "dedup_loop components seen [] = components"
| "dedup_loop components seen (c # cs) =
     (let component = py_strip c
      in if component \<notin> seen
         then dedup_loop (components @ [component]) (insert component seen) cs
         else dedup_loop components seen cs)"

definition dedup_components :: "string \<Rightarrow> string \<Rightarrow> py_error + string" where
  "dedup_components spl text =
     bind_err (py_split spl text) (\<lambda>parts. Inr (py_join spl (dedup_loop [] {} parts)))"

fun post_rules_loop :: "services \<Rightarrow> rules \<Rightarrow> string \<Rightarrow> py_error + string" where
  "post_rules_loop S [] text = Inr text"
| "post_rules_loop S ((regex, replacement) # rs) text =
     bind_err (re_sub S regex replacement text) (post_rules_loop S rs)"

definition post_replacements ::
  "services \<Rightarrow> formatter \<Rightarrow> template_record \<Rightarrow> string \<Rightarrow> py_error + string" where
  "post_replacements S F template text =
     bind_err (dedup_components (splitter F) text) (\<lambda>text.
       case postformat_replace template of
         None \<Rightarrow> Inr text
       | Some rs \<Rightarrow> post_rules_loop S rs text)"

section \<open>Token-aware stripping\<close>

definition is_sep_type :: "token_type \<Rightarrow> bool" where
  "is_sep_type t = (t \<in> {COMMA, HYPHEN})"

text \<open>The two loops of the untagged mode. The first argument is the value \<open>start\<close>
  (\<open>end\<close>) has when the loop is left by exhaustion.\<close>

fun strip_start_loop :: "nat \<Rightarrow> (nat \<times> nat \<times> token_type) list \<Rightarrow> nat" where
  "strip_start_loop start [] = start"
| "strip_start_loop start ((token_start, token_length, token_type) # tokens) =
     (if \<not> is_sep_type token_type then token_start
      else strip_start_loop (token_start + token_length) tokens)"

fun strip_end_loop :: "nat \<Rightarrow> (nat \<times> nat \<times> token_type) list \<Rightarrow> nat" where
  "strip_end_loop end [] = end"
| "strip_end_loop end ((token_start, token_length, token_type) # tokens) =
     (if \<not> is_sep_type token_type then token_start + token_length
      else strip_end_loop token_start tokens)"

text \<open>\<open>t.rsplit('/', 1)\<close> unpacked into two names: \<open>ValueError\<close> when \<open>t\<close> has no
  slash.\<close>

definition rsplit_slash :: "string \<Rightarrow> py_error + (string \<times> string)" where
  "rsplit_slash t =
     (if CHR ''/'' \<in> set t
      then Inr (rev (tl (dropWhile (\<lambda>c. c \<noteq> CHR ''/'') (rev t))),
                rev (takeWhile (\<lambda>c. c \<noteq> CHR ''/'') (rev t)))
      else Inl ValueError)"

text \<open>The two loops of the tagged mode. \<open>i\<close> (\<open>j\<close>) is the index of the next token;
  when the loop is entered or continues, \<open>start\<close> is \<open>i\<close> and \<open>end\<close> is
  \<open>num_tokens - j\<close>.\<close>

fun tagged_start_loop :: "nat \<Rightarrow> string list \<Rightarrow> py_error + nat" where
  "tagged_start_loop i [] = Inr i"
| "tagged_start_loop i (t # ts) =
     (case rsplit_slash t of
        Inl e \<Rightarrow> Inl e
      | Inr (t', c) \<Rightarrow> if c \<noteq> separator_tag then Inr i else tagged_start_loop (i + 1) ts)"

fun tagged_end_loop :: "nat \<Rightarrow> nat \<Rightarrow> string list \<Rightarrow> py_error + nat" where
  "tagged_end_loop num_tokens j [] = Inr (num_tokens - j)"
| "tagged_end_loop num_tokens j (t # ts) =
     (case rsplit_slash t of
        Inl e \<Rightarrow> Inl e
      | Inr (t', c) \<Rightarrow>
          if c \<noteq> separator_tag then Inr (num_tokens - j)
          else tagged_end_loop num_tokens (j + 1) ts)"

definition strip_component :: "services \<Rightarrow> string \<Rightarrow> bool \<Rightarrow> py_error + string" where
  "strip_component S v tagged =
     (if \<not> tagged then
        (let tokens = tokenize_raw S (py_strip v);
             start = strip_start_loop 0 tokens;
             end = strip_end_loop 0 (rev tokens)
         in Inr (py_slice v start end))
      else
        (let tokens = py_split_ws v
         in bind_err (tagged_start_loop 0 tokens) (\<lambda>start.
            bind_err (tagged_end_loop (length tokens) 0 (rev tokens)) (\<lambda>end.
              Inr (py_join '' '' (py_slice tokens start end))))))"

section \<open>Rendering\<close>

text \<open>\<open>whitespace_component_regex.split(output)\<close> for the pattern
  \<open>[\r\n]+[\s\r\n]*\<close>: a match starts at a line feed or carriage return and extends
  over all the whitespace that follows.\<close>

definition is_newline :: "char \<Rightarrow> bool" where
  "is_newline c = (c = CHR 0x0A \<or> c = CHR 0x0D)"

function whitespace_component_split :: "string \<Rightarrow> string list" where
  "whitespace_component_split [] = [[]]"
| "whitespace_component_split (c # cs) =
     (if is_newline c then [] # whitespace_component_split (dropWhile is_space cs)
      else (case whitespace_component_split cs of
              [] \<Rightarrow> [[c]]
            | x # xs \<Rightarrow> (c # x) # xs))"
  by pat_completeness auto
termination
  by (relation "measure length") (auto simp: length_dropWhile_le le_imp_less_Suc)

text \<open>The helper \<open>render_first\<close> passed to the template engine as \<open>first\<close>.\<close>

definition render_first :: "services \<Rightarrow> dict \<Rightarrow> string \<Rightarrow> py_error + string" where
  "render_first S components text =
     bind_err (pystache_render S text None components) (\<lambda>text.
       let splits = map py_strip (split_scan ''||'' text)
       in Inr (case filter (\<lambda>e. e \<noteq> []) splits of [] \<Rightarrow> [] | selected # rest \<Rightarrow> selected))"

fun strip_all :: "services \<Rightarrow> bool \<Rightarrow> string list \<Rightarrow> py_error + string list" where
  "strip_all S tagged [] = Inr []"
| "strip_all S tagged (v # vs) =
     bind_err (strip_component S v tagged) (\<lambda>x.
     bind_err (strip_all S tagged vs) (\<lambda>xs. Inr (x # xs)))"

text \<open>\<open>render_template\<close>. The call \<open>pystache.render(template, first=render_first,
  **components)\<close> raises \<open>TypeError\<close> when \<open>components\<close> has the key \<open>first\<close> (the
  keyword argument would be given twice).\<close>

definition render_template ::
  "services \<Rightarrow> formatter \<Rightarrow> string \<Rightarrow> dict \<Rightarrow> bool \<Rightarrow> py_error + string" where
  "render_template S F template components tagged =
     (if dict_has components ''first'' then Inl TypeError
      else
        bind_err (pystache_render S template (Some (render_first S components)) components)
          (\<lambda>rendered.
             let output = py_strip rendered;
                 vals = whitespace_component_split output;
                 spl = (if \<not> tagged then splitter F
                        else '' '' @ py_strip (splitter F) @ ''/'' @ field_separator_tag @ '' '')
             in bind_err (strip_all S tagged vals) (\<lambda>vals.
                  Inr (py_join spl (filter (\<lambda>val. py_strip val \<noteq> []) vals)))))"

text \<open>The dictionary comprehension of \<open>format_address\<close> that tags every token of every
  component with the name of the component.\<close>

definition tag_component_values :: "services \<Rightarrow> dict \<Rightarrow> dict" where
  "tag_component_values S components =
     map (\<lambda>(k, v).
            (k, py_join '' ''
                  (map (\<lambda>(t, c). replace_literal '' '' [] t @ ''/'' @ replace_literal '' '' ''_'' k)
                       (tokenize S v))))
         components"

section \<open>The public operation\<close>

text \<open>
  \<open>format_address\<close> returns the outcome (an exception, \<open>None\<close> or the text) together
  with the caller's dictionary as the call leaves it: \<open>replace_aliases\<close> and
  \<open>apply_replacements\<close> mutate it in place, the tagging works on a new dictionary.
\<close>

definition format_address ::
  "services \<Rightarrow> formatter \<Rightarrow> string \<Rightarrow> dict \<Rightarrow> bool \<Rightarrow> bool \<Rightarrow> bool
     \<Rightarrow> (py_error + string option) \<times> dict" where
  "format_address S F country components minimal_only tag_components do_replace_aliases =
     (case map_of (config F) (py_upper country) of
        None \<Rightarrow> (Inr None, components)
      | Some template \<Rightarrow>
          if \<not> truthy template then (Inr None, components)
          else
            (case template of
               TemplateText t \<Rightarrow> (Inl TypeError, components)
             | TemplateRecord r \<Rightarrow>
                 (case address_template r of
                    None \<Rightarrow> (Inl KeyError, components)
                  | Some template_text \<Rightarrow>
                      (case (if do_replace_aliases then replace_aliases components
                             else (Inr (), components)) of
                         (Inl e, components) \<Rightarrow> (Inl e, components)
                       | (Inr u, components) \<Rightarrow>
                           if minimal_only \<and> \<not> minimal_components components
                           then (Inr None, components)
                           else
                             (case apply_replacements S r components of
                                (Inl e, components) \<Rightarrow> (Inl e, components)
                              | (Inr u, components) \<Rightarrow>
                                  (let template_text =
                                         (if tag_components
                                          then tag_template_separators template_text
                                          else template_text);
                                       rendering =
                                         (if tag_components
                                          then tag_component_values S components
                                          else components)
                                   in (bind_err
                                         (render_template S F template_text rendering
                                            tag_components)
                                         (\<lambda>text. bind_err (post_replacements S F r text)
                                            (\<lambda>text. Inr (Some text))),
                                       components)))))))"

section \<open>Reference services\<close>

text \<open>
  Concrete services, used to evaluate the formatter on examples. The general theorems
  hold for all services.
\<close>

text \<open>
  Modelled from the spec: the tokenizer \<open>postal.text.tokenize\<close> is not among the
  sources. The spec describes it as producing an ordered sequence of (offset, length,
  category) triples whose categories distinguish at least words, commas and hyphens,
  and a simpler form with (token-text, category) pairs. The reference tokenizer emits a
  \<open>COMMA\<close> token for a comma, a \<open>HYPHEN\<close> token for a hyphen and a \<open>WORD\<close> token for
  every other maximal run of characters that are not whitespace; whitespace separates
  tokens and is not emitted. Offsets count from the start of the tokenized text.
\<close>

fun flush_word :: "(nat \<times> nat) option \<Rightarrow> (nat \<times> nat \<times> token_type) list" where
  "flush_word None = []"
| "flush_word (Some (st, n)) = [(st, n, WORD)]"

fun ref_scan ::
  "nat \<Rightarrow> (nat \<times> nat) option \<Rightarrow> string \<Rightarrow> (nat \<times> nat \<times> token_type) list" where
  "ref_scan pos cur [] = flush_word cur"
| "ref_scan pos cur (c # cs) =
     (if is_space c then flush_word cur @ ref_scan (pos + 1) None cs
      else if c = CHR '','' then flush_word cur @ (pos, 1, COMMA) # ref_scan (pos + 1) None cs
      else if c = CHR ''-'' then flush_word cur @ (pos, 1, HYPHEN) # ref_scan (pos + 1) None cs
      else ref_scan (pos + 1)
             (case cur of None \<Rightarrow> Some (pos, 1) | Some (st, n) \<Rightarrow> Some (st, n + 1)) cs)"

definition ref_tokenize_raw :: "string \<Rightarrow> (nat \<times> nat \<times> token_type) list" where
  "ref_tokenize_raw s = ref_scan 0 None s"

definition ref_tokenize :: "string \<Rightarrow> (string \<times> token_type) list" where
  "ref_tokenize s =
     map (\<lambda>(st, n, ty). (py_slice s st (st + n), ty)) (ref_tokenize_raw s)"

text \<open>
  Stand-ins for the two libraries \<open>re\<close> and \<open>pystache\<close>: the reference substitution
  treats the pattern as a literal text; the reference template engine substitutes the
  placeholders written with three braces and copies every other character (it has no
  sections, so it never calls \<open>first\<close>).
\<close>

definition ref_re_sub :: "string \<Rightarrow> string \<Rightarrow> string \<Rightarrow> py_error + string" where
  "ref_re_sub pattern repl s =
     (if pattern = [] then Inl ServiceError else Inr (replace_literal pattern repl s))"

function ref_render_text :: "dict \<Rightarrow> string \<Rightarrow> string" where
  "ref_render_text b [] = []"
| "ref_render_text b (c # cs) =
     (if prefix ''{{{'' (c # cs)
      then (let body = drop 2 cs;
                name = takeWhile (\<lambda>x. x \<noteq> CHR ''}'') body;
                rest = drop 3 (dropWhile (\<lambda>x. x \<noteq> CHR ''}'') body)
            in (case map_of b name of None \<Rightarrow> [] | Some v \<Rightarrow> v) @ ref_render_text b rest)
      else c # ref_render_text b cs)"
  by pat_completeness auto
termination
  apply (relation "measure (\<lambda>(b, s). length s)")
    apply simp
   apply (simp add: le_imp_less_Suc le_trans[OF diff_le_self] le_trans[OF length_dropWhile_le])
  apply simp
  done

definition ref_render ::
  "string \<Rightarrow> (string \<Rightarrow> py_error + string) option \<Rightarrow> dict \<Rightarrow> py_error + string" where
  "ref_render template first_helper bindings = Inr (ref_render_text bindings template)"

definition ref_services :: services where
  "ref_services =
     \<lparr>tokenize_raw = ref_tokenize_raw, tokenize = ref_tokenize,
      re_sub = ref_re_sub, pystache_render = ref_render\<rparr>"

section \<open>An example rule table\<close>

text \<open>A small rule table in the shape of the YAML file: a \<open>default\<close> record, a record for
  \<open>ES\<close>, an entry \<open>XX\<close> stored as a bare template text, and a record \<open>AI\<close> that
  has no address template of its own.\<close>

definition example_raw_config :: "(string \<times> config_value) list" where
  "example_raw_config =
     [(''default'', TemplateRecord
         \<lparr>address_template =
            Some (''{{{house}}}'' @ [CHR 0x0A] @ ''{{{road}}} {{{house_number}}}'' @ [CHR 0x0A]
                  @ ''{{{postcode}}} {{{city}}}''),
          replace = None, postformat_replace = None, other_keys = []\<rparr>),
      (''ES'', TemplateRecord
         \<lparr>address_template =
            Some (''{{{house}}}'' @ [CHR 0x0A] @ ''{{{road}}}, {{{house_number}}}'' @ [CHR 0x0A]
                  @ ''{{{postcode}}} {{{city}}}''),
          replace = None, postformat_replace = None, other_keys = []\<rparr>),
      (''XX'', TemplateText ''{{{road}}} {{{house_number}}}''),
      (''AI'', TemplateRecord
         \<lparr>address_template = None, replace = None, postformat_replace = None,
          other_keys = [(''use_country'', ''GB''), (''change_country'', ''Anguilla'')]\<rparr>)]"

definition example_formatter :: formatter where
  "example_formatter = \<lparr>config = load_config example_raw_config, splitter = default_splitter\<rparr>"

section \<open>Predicates used in the statements\<close>


text \<open>Tokens of a tagged value: a token carries the synthetic separator label when it
  ends with \<open>/SEP\<close>; it is tagged when it contains a slash.\<close>

definition is_separator_token :: "string \<Rightarrow> bool" where
  "is_separator_token t = suffix (''/'' @ separator_tag) t"

definition is_tagged_token :: "string \<Rightarrow> bool" where
  "is_tagged_token t = (CHR ''/'' \<in> set t)"

text \<open>A dictionary of components with raw keys, for examples.\<close>

definition example_components :: dict where
  "example_components =
     [(''name'', ''Cafe''), (''street'', ''A''), (''addr:street'', ''B''),
      (''city'', ''Madrid''), (''addr:city'', ''M'')]"

text \<open>An invariant of the loop of \<open>replace_aliases\<close>, on the keys that remain to be
  visited: a remaining key with an alias is still in the dictionary, or its canonical
  name is. Under it \<open>pop\<close> is never called on a missing key.\<close>

definition keys_reachable :: "dict \<Rightarrow> string list \<Rightarrow> bool" where
  "keys_reachable d ks =
     (\<forall>k \<in> set ks. \<forall>nk. map_of aliases k = Some nk \<longrightarrow> map_of d k \<noteq> None \<or> map_of d nk \<noteq> None)"

section \<open>Auxiliary lemmas on strings\<close>

lemma split_scan_nonempty: "split_scan sep s \<noteq> []"
  by (induction sep s rule: split_scan.induct) (auto split: list.splits)

lemma split_scan_no_sep_char:
  "x \<in> set (split_scan [c] s) \<Longrightarrow> c \<notin> set x"
  by (induction s arbitrary: x) (auto split: list.splits if_splits)

lemma py_rstrip_nl_id: 
  assumes "CHR 0x0A \<notin> set s" shows "py_rstrip_nl s = s"
proof -
  have "dropWhile (\<lambda>c. c = CHR 0x0A) (rev s) = rev s"
  proof (cases "rev s")
    case Nil then show ?thesis by simp
  next
    case (Cons y ys)
    then have "y \<in> set s" by (metis list.set_intros(1) set_rev)
    with assms have "y \<noteq> CHR 0x0A" by auto
    with Cons show ?thesis by simp
  qed
  then show ?thesis by (simp add: py_rstrip_nl_def)
qed

lemma add_suburb_loop_eq:
  "\<forall>l \<in> set lines. CHR 0x0A \<notin> set l \<Longrightarrow>
   add_suburb_loop b acc lines =
     acc @ concat (map (\<lambda>line. if py_in ''road'' line \<and> \<not> b \<and> \<not> post_suburb_keys_search line
                                 then [line, suburb_placeholder] else [line]) lines)"
  by (induction lines arbitrary: acc) (auto simp: py_rstrip_nl_id Let_def)

text \<open>Splitting a joined list of segments gives the segments back when some character
  of the separator occurs in no segment.\<close>

lemma prefix_sep_needs_char:
  assumes "c \<in> set sep" "c \<notin> set x" "x \<noteq> []"
  shows "\<not> prefix sep (x @ sep @ rest)"
proof
  assume p: "prefix sep (x @ sep @ rest)"
  from assms(1) obtain a b where sep: "sep = a @ c # b" and ca: "c \<notin> set a"
    by (meson split_list_first)
  from p obtain zs where eq: "x @ sep @ rest = sep @ zs" by (auto simp: prefix_def)
  have "(sep @ zs) ! length a = c" using sep by (simp add: nth_append)
  with eq have nth: "(x @ sep @ rest) ! length a = c" by simp
  show False
  proof (cases "length a < length x")
    case True
    then have "x ! length a = c" using nth by (simp add: nth_append)
    then show False using True assms(2) nth_mem by metis
  next
    case False
    then have "(sep @ rest) ! (length a - length x) = c" using nth by (simp add: nth_append)
    moreover have "length a - length x < length a" using False assms(3) by (cases x) auto
    ultimately have "a ! (length a - length x) = c" using sep by (simp add: nth_append)
    then show False using ca \<open>length a - length x < length a\<close> nth_mem by metis
  qed
qed

lemma prefix_sep_free:
  assumes "c \<in> set sep" "c \<notin> set x"
  shows "\<not> prefix sep x"
proof
  assume "prefix sep x"
  then have "set sep \<subseteq> set x" by (auto simp: prefix_def)
  with assms show False by auto
qed

lemma split_scan_free:
  "c \<in> set sep \<Longrightarrow> c \<notin> set x \<Longrightarrow> split_scan sep x = [x]"
proof (induction x)
  case Nil then show ?case by simp
next
  case (Cons y ys)
  have "\<not> prefix sep (y # ys)" using Cons.prems by (rule prefix_sep_free)
  moreover have "split_scan sep ys = [ys]" using Cons by simp
  ultimately show ?case by simp
qed

lemma split_scan_sep_append:
  assumes "sep \<noteq> []" shows "split_scan sep (sep @ rest) = [] # split_scan sep rest"
proof -
  from assms obtain s ss where sep: "sep = s # ss" by (cases sep) auto
  then show ?thesis by simp
qed

lemma split_scan_segment:
  "c \<in> set sep \<Longrightarrow> c \<notin> set x \<Longrightarrow>
   split_scan sep (x @ sep @ rest) = x # split_scan sep rest"
proof (induction x)
  case Nil
  then have "sep \<noteq> []" by auto
  then show ?case using split_scan_sep_append by simp
next
  case (Cons y ys)
  have "\<not> prefix sep ((y # ys) @ sep @ rest)"
    using Cons.prems by (intro prefix_sep_needs_char) auto
  moreover have "split_scan sep (ys @ sep @ rest) = ys # split_scan sep rest"
    using Cons by simp
  ultimately show ?case by simp
qed

lemma split_scan_join:
  "c \<in> set sep \<Longrightarrow> \<forall>x \<in> set xs. c \<notin> set x \<Longrightarrow> xs \<noteq> [] \<Longrightarrow>
   split_scan sep (py_join sep xs) = xs"
proof (induction sep xs rule: py_join.induct)
  case (1 sep) then show ?case by simp
next
  case (2 sep x) then show ?case by (simp add: split_scan_free)
next
  case (3 sep x y ys)
  then show ?case by (simp add: split_scan_segment)
qed

lemma py_in_iff: "py_in sub s \<longleftrightarrow> (\<exists>a b. s = a @ sub @ b)"
proof (induction s)
  case Nil then show ?case by auto
next
  case (Cons c cs)
  show ?case
  proof
    assume "py_in sub (c # cs)"
    then consider "prefix sub (c # cs)" | "py_in sub cs" by auto
    then show "\<exists>a b. c # cs = a @ sub @ b"
    proof cases
      case 1 then obtain b where "c # cs = sub @ b" by (auto simp: prefix_def)
      then have "c # cs = [] @ sub @ b" by simp
      then show ?thesis by blast
    next
      case 2 then obtain a b where "cs = a @ sub @ b" using Cons by auto
      then have "c # cs = (c # a) @ sub @ b" by simp
      then show ?thesis by blast
    qed
  next
    assume "\<exists>a b. c # cs = a @ sub @ b"
    then obtain a b where eq: "c # cs = a @ sub @ b" by auto
    show "py_in sub (c # cs)"
    proof (cases a)
      case Nil
      then have "prefix sub (c # cs)" using eq by (metis append_Nil prefixI)
      then show ?thesis by simp
    next
      case (Cons a0 as) then have "cs = as @ sub @ b" using eq by simp
      then show ?thesis using Cons.IH by auto
    qed
  qed
qed

lemma suburb_placeholder_no_nl: "CHR 0x0A \<notin> set suburb_placeholder"
  by (simp add: suburb_placeholder_def)


lemma py_rstrip_prefix: "\<exists>w. t = py_rstrip t @ w"
proof -
  let ?xs = "rev t"
  have "rev (takeWhile is_space ?xs @ dropWhile is_space ?xs)
          = rev (dropWhile is_space ?xs) @ rev (takeWhile is_space ?xs)"
    by (rule rev_append)
  moreover have "rev (takeWhile is_space ?xs @ dropWhile is_space ?xs) = t"
    by (simp only: takeWhile_dropWhile_id rev_rev_ident)
  ultimately have "t = py_rstrip t @ rev (takeWhile is_space ?xs)"
    by (simp only: py_rstrip_def)
  then show ?thesis by blast
qed

section \<open>Suburb injection (claim C7)\<close>

text \<open>
  Claim C7, as the code has it. Suburb injection at template load works on the text of
  the lines, not on placeholders: for every line of a template, if the text \<open>road\<close>
  occurs in the line (as it does in every line with the placeholder \<open>{{{road}}}\<close>),
  the text \<open>suburb\<close> occurs nowhere in the template, and none of the words city, state,
  state_district, postcode, country occurs in the line in any letter case, then a new
  line consisting only of \<open>{{{suburb}}}\<close> is inserted directly after that line. Every
  line of the template is passed through unchanged and no other line is inserted: the
  lines of the result are the lines of the template, each followed by the line
  \<open>{{{suburb}}}\<close> exactly when the three textual conditions hold.
\<close>

theorem C7_add_suburb_tags_lines:
  "split_scan [CHR 0x0A] (add_suburb_tags template) =
     concat (map (\<lambda>line. if py_in ''road'' line \<and> \<not> py_in ''suburb'' template
                              \<and> \<not> post_suburb_keys_search line
                           then [line, suburb_placeholder] else [line])
                 (split_scan [CHR 0x0A] template))
   \<and> (py_in ''{{{road}}}'' line \<longrightarrow> py_in ''road'' line)"
proof
  let ?f = "\<lambda>line. if py_in ''road'' line \<and> \<not> py_in ''suburb'' template
                              \<and> \<not> post_suburb_keys_search line
                           then [line, suburb_placeholder] else [line]"
  let ?ls = "split_scan [CHR 0x0A] template"
  have nl: "\<forall>l \<in> set ?ls. CHR 0x0A \<notin> set l" by (auto dest: split_scan_no_sep_char)
  have eq: "add_suburb_tags template = py_join [CHR 0x0A] (concat (map ?f ?ls))"
    unfolding add_suburb_tags_def Let_def using add_suburb_loop_eq[OF nl] by simp
  have ne: "concat (map ?f ?ls) \<noteq> []"
    using split_scan_nonempty[of "[CHR 0x0A]" template] by (cases ?ls) auto
  have free: "\<forall>x \<in> set (concat (map ?f ?ls)). CHR 0x0A \<notin> set x"
    using nl suburb_placeholder_no_nl by (auto split: if_splits)
  show "split_scan [CHR 0x0A] (add_suburb_tags template) = concat (map ?f ?ls)"
    unfolding eq by (rule split_scan_join[OF _ free ne]) simp
next
  show "py_in ''{{{road}}}'' line \<longrightarrow> py_in ''road'' line"
  proof
    assume "py_in ''{{{road}}}'' line"
    then obtain a b where "line = a @ ''{{{road}}}'' @ b" by (auto simp: py_in_iff)
    then have "line = (a @ ''{{{'') @ ''road'' @ (''}}}'' @ b)" by simp
    then show "py_in ''road'' line" unfolding py_in_iff by blast
  qed
qed

text \<open>
  Claim C7 as stated, in terms of a road placeholder and a suburb placeholder, fails in
  both directions. The line \<open>crossroads\<close> contains no road placeholder, yet a suburb
  line is inserted after it. The template \<open>{{{road}}} suburbia\<close> has a road
  placeholder, no suburb placeholder and none of the five words, yet nothing is inserted,
  because the text \<open>suburb\<close> occurs in it.
\<close>

theorem C7_counterexample:
  "\<not> py_in ''{{{road}}}'' ''crossroads'' \<and> \<not> py_in ''{{road}}'' ''crossroads''
   \<and> add_suburb_tags ''crossroads'' = ''crossroads'' @ [CHR 0x0A] @ ''{{{suburb}}}''
   \<and> py_in ''{{{road}}}'' ''{{{road}}} suburbia''
   \<and> \<not> py_in ''{{{suburb}}}'' ''{{{road}}} suburbia''
   \<and> \<not> py_in ''{{suburb}}'' ''{{{road}}} suburbia''
   \<and> \<not> post_suburb_keys_search ''{{{road}}} suburbia''
   \<and> add_suburb_tags ''{{{road}}} suburbia'' = ''{{{road}}} suburbia''"
  by code_simp

theorem C7_add_suburb_tags_witness:
  "py_in ''{{{road}}}'' ''{{{road}}} {{{house_number}}}''
   \<and> py_in ''road'' ''{{{road}}} {{{house_number}}}''
   \<and> split_scan [CHR 0x0A]
         (add_suburb_tags (''{{{road}}} {{{house_number}}}'' @ [CHR 0x0A] @ ''{{{postcode}}} {{{city}}}''))
       = [''{{{road}}} {{{house_number}}}'', ''{{{suburb}}}'', ''{{{postcode}}} {{{city}}}'']"
proof -
  let ?t = "''{{{road}}} {{{house_number}}}'' @ [CHR 0x0A] @ ''{{{postcode}}} {{{city}}}''"
  let ?l = "''{{{road}}} {{{house_number}}}''"
  note inst = C7_add_suburb_tags_lines[of ?t ?l]
  have a: "py_in ''{{{road}}}'' ?l" by code_simp
  from inst a have b: "py_in ''road'' ?l" by blast
  have "split_scan [CHR 0x0A] (add_suburb_tags ?t) =
     concat (map (\<lambda>line. if py_in ''road'' line \<and> \<not> py_in ''suburb'' ?t
                              \<and> \<not> post_suburb_keys_search line
                           then [line, suburb_placeholder] else [line])
                 (split_scan [CHR 0x0A] ?t))"
    using inst by blast
  also have "\<dots> = [''{{{road}}} {{{house_number}}}'', ''{{{suburb}}}'', ''{{{postcode}}} {{{city}}}'']"
    by code_simp
  finally show ?thesis using a b by blast
qed

section \<open>Separator tagging (claim C5)\<close>








section \<open>Entries without a template record (claim C2)\<close>

text \<open>
  Claim C2: for every well-typed input \<open>format_address\<close> returns a text or the no-result
  value and no exception escapes, in particular for every country whose entry was loaded,
  including the entries stored as a bare template text rather than a full record.

  The code does not keep this promise. \<open>load_config\<close> accepts the bare template text of
  the entry \<open>XX\<close> and stores the preprocessed text under its key; \<open>format_address\<close>
  then evaluates \<open>template['address_template']\<close> on that text, which raises
  \<open>TypeError\<close>. The same expression raises \<open>KeyError\<close> for the record \<open>AI\<close>, which
  \<open>load_config\<close> accepts without an address template.
\<close>

theorem C2_bare_template_raises:
  "map_of example_raw_config ''XX'' = Some (TemplateText ''{{{road}}} {{{house_number}}}'')
   \<and> format_address ref_services example_formatter ''xx''
         [(''road'', ''Main St''), (''house_number'', ''2'')] True True True
       = (Inl TypeError, [(''road'', ''Main St''), (''house_number'', ''2'')])
   \<and> format_address ref_services example_formatter ''ai''
         [(''road'', ''Main St''), (''house_number'', ''2'')] True True True
       = (Inl KeyError, [(''road'', ''Main St''), (''house_number'', ''2'')])"
  by code_simp

section \<open>Untagged stripping (claim C4)\<close>

text \<open>
  The offsets that the two loops compute: \<open>start\<close> is the offset of the first token that
  is neither a comma nor a hyphen, \<open>end\<close> is the end of the last such token. For a value
  without leading whitespace the slice of the value between them is the slice of the
  stripped value.
\<close>

lemma strip_start_loop_first:
  "\<forall>t \<in> set pre. is_sep_type (snd (snd t)) \<Longrightarrow> \<not> is_sep_type ty \<Longrightarrow>
   strip_start_loop s (pre @ (st, len, ty) # rest) = st"
  by (induction pre arbitrary: s) auto

lemma strip_end_loop_first:
  "\<forall>t \<in> set pre. is_sep_type (snd (snd t)) \<Longrightarrow> \<not> is_sep_type ty \<Longrightarrow>
   strip_end_loop e (pre @ (st, len, ty) # rest) = st + len"
  by (induction pre arbitrary: e) auto

lemma strip_component_untagged_between:
  assumes "tokenize_raw S (py_strip v) = pre @ (st1, len1, ty1) # rest"
    and "tokenize_raw S (py_strip v) = front @ (st2, len2, ty2) # post"
    and "\<forall>t \<in> set pre. is_sep_type (snd (snd t))" "\<not> is_sep_type ty1"
    and "\<forall>t \<in> set post. is_sep_type (snd (snd t))" "\<not> is_sep_type ty2"
  shows "strip_component S v False = Inr (py_slice v st1 (st2 + len2))"
proof -
  let ?ts = "tokenize_raw S (py_strip v)"
  have s: "strip_start_loop 0 ?ts = st1"
    unfolding assms(1) using assms(3,4) by (rule strip_start_loop_first)
  have "rev ?ts = rev post @ (st2, len2, ty2) # rev front" unfolding assms(2) by simp
  moreover have "\<forall>t \<in> set (rev post). is_sep_type (snd (snd t))" using assms(5) by simp
  ultimately have e: "strip_end_loop 0 (rev ?ts) = st2 + len2"
    using assms(6) strip_end_loop_first by metis
  show ?thesis unfolding strip_component_def Let_def using s e by simp
qed

lemma py_slice_without_leading_space:
  "py_lstrip v = v \<Longrightarrow> py_slice (py_strip v) a b = py_slice v a (min b (length (py_strip v)))"
proof -
  assume l: "py_lstrip v = v"
  obtain w where w: "v = py_rstrip v @ w" using py_rstrip_prefix by blast
  have s: "py_strip v = py_rstrip v" by (simp add: py_strip_def l)
  have "take (min b (length (py_rstrip v)) - a) (drop a v)
        = take (b - a) (drop a (py_rstrip v))"
  proof -
    have "drop a v = drop a (py_rstrip v) @ drop (a - length (py_rstrip v)) w"
      using w by (metis drop_append)
    then show ?thesis by (auto simp: min_def)
  qed
  then show ?thesis unfolding py_slice_def s by simp
qed

text \<open>
  Claim C4: untagged token-aware stripping removes exactly the leading run of
  comma/hyphen tokens (and interleaved whitespace) and the trailing run of comma/hyphen
  tokens, and nothing else; in particular \<open>", - Main St -, "\<close> strips to \<open>Main St\<close>.

  The example of the claim holds. But the tokens are those of \<open>value.strip()\<close> while the
  slice is taken from \<open>value\<close>: when the value starts with whitespace the offsets are
  shifted, and \<open>" Main St"\<close>, which has no comma or hyphen at all, is returned as
  \<open>" Main S"\<close>.
\<close>

theorem C4_strip_untagged_leading_whitespace:
  "strip_component ref_services '', - Main St -, '' False = Inr ''Main St''
   \<and> ref_tokenize_raw ''Main St'' = [(0, 4, WORD), (5, 2, WORD)]
   \<and> strip_component ref_services '' Main St'' False = Inr '' Main S''"
  by code_simp

section \<open>Deduplication of rendered components (claim C8)\<close>

lemma py_strip_idem: "py_strip (py_strip s) = py_strip s"
proof -
  let ?t = "py_lstrip s"
  let ?u = "py_rstrip ?t"
  have l: "py_lstrip ?u = ?u"
  proof (cases "?u = []")
    case True then show ?thesis by (simp add: py_lstrip_def)
  next
    case False
    obtain w where tw: "?t = ?u @ w" using py_rstrip_prefix by blast
    then have "?t \<noteq> []" using False by auto
    then have "\<not> is_space (hd ?t)" unfolding py_lstrip_def by (rule hd_dropWhile)
    moreover have "hd ?t = hd ?u" using tw False by (metis hd_append2)
    ultimately show ?thesis using False by (simp add: py_lstrip_def dropWhile_eq_self_iff)
  qed
  have r: "py_rstrip ?u = ?u" by (simp add: py_rstrip_def)
  show ?thesis unfolding py_strip_def l r ..
qed

lemma set_py_strip: "set (py_strip s) \<subseteq> set s"
proof -
  have "set (py_rstrip t) \<subseteq> set t" for t
    unfolding py_rstrip_def using set_dropWhileD[of _ is_space "rev t"] by auto
  moreover have "set (py_lstrip s) \<subseteq> set s"
    unfolding py_lstrip_def using set_dropWhileD[of _ is_space s] by auto
  ultimately show ?thesis unfolding py_strip_def by blast
qed

lemma dedup_loop_new:
  "py_strip x \<notin> set acc \<Longrightarrow>
   dedup_loop acc (set acc) (x # xs)
     = dedup_loop (acc @ [py_strip x]) (set (acc @ [py_strip x])) xs"
  by (simp add: Let_def)

lemma dedup_loop_seen:
  "py_strip x \<in> set acc \<Longrightarrow> dedup_loop acc (set acc) (x # xs) = dedup_loop acc (set acc) xs"
  by (simp add: Let_def)

lemma dedup_loop_set:
  "set (dedup_loop acc (set acc) xs) = set acc \<union> py_strip ` set xs"
proof (induction xs arbitrary: acc)
  case Nil then show ?case by simp
next
  case (Cons x xs)
  show ?case
  proof (cases "py_strip x \<in> set acc")
    case True
    have "set (dedup_loop acc (set acc) (x # xs)) = set acc \<union> py_strip ` set xs"
      unfolding dedup_loop_seen[OF True] by (rule Cons.IH)
    then show ?thesis using True by auto
  next
    case False
    have "set (dedup_loop acc (set acc) (x # xs))
            = set (acc @ [py_strip x]) \<union> py_strip ` set xs"
      unfolding dedup_loop_new[OF False] by (rule Cons.IH)
    then show ?thesis by auto
  qed
qed

lemma dedup_loop_distinct:
  "distinct acc \<Longrightarrow> distinct (dedup_loop acc (set acc) xs)"
proof (induction xs arbitrary: acc)
  case Nil then show ?case by simp
next
  case (Cons x xs)
  show ?case
  proof (cases "py_strip x \<in> set acc")
    case True
    show ?thesis unfolding dedup_loop_seen[OF True] using Cons.prems by (rule Cons.IH)
  next
    case False
    have "distinct (acc @ [py_strip x])" using False Cons.prems by simp
    then show ?thesis unfolding dedup_loop_new[OF False] by (rule Cons.IH)
  qed
qed

lemma dedup_loop_fixed:
  "distinct (acc @ xs) \<Longrightarrow> \<forall>x \<in> set xs. py_strip x = x \<Longrightarrow>
   dedup_loop acc (set acc) xs = acc @ xs"
proof (induction xs arbitrary: acc)
  case Nil then show ?case by simp
next
  case (Cons x xs)
  have sx: "py_strip x = x" using Cons.prems by simp
  have nx: "py_strip x \<notin> set acc" using Cons.prems sx by auto
  have "dedup_loop (acc @ [x]) (set (acc @ [x])) xs = (acc @ [x]) @ xs"
    using Cons.prems by (intro Cons.IH) auto
  then have "dedup_loop (acc @ [py_strip x]) (set (acc @ [py_strip x])) xs = acc @ x # xs"
    unfolding sx by simp
  then show ?case unfolding dedup_loop_new[OF nx] .
qed

lemma dedup_loop_nonempty: "xs \<noteq> [] \<Longrightarrow> dedup_loop [] {} xs \<noteq> []"
proof -
  assume "xs \<noteq> []"
  then obtain x where "x \<in> set xs" by (cases xs) auto
  then have "py_strip x \<in> set (dedup_loop [] (set []) xs)"
    unfolding dedup_loop_set by simp
  then show ?thesis by auto
qed

lemma dedup_loop_idem:
  "dedup_loop [] {} (dedup_loop [] {} xs) = dedup_loop [] {} xs"
proof -
  let ?ds = "dedup_loop [] {} xs"
  have d: "distinct ([] @ ?ds)" using dedup_loop_distinct[of "[]" xs] by simp
  have "set ?ds = py_strip ` set xs" using dedup_loop_set[of "[]" xs] by simp
  then have st: "\<forall>x \<in> set ?ds. py_strip x = x" by (auto simp: py_strip_idem)
  show ?thesis using dedup_loop_fixed[OF d st] by simp
qed

text \<open>
  Claim C8, as the code has it. The deduplication step of \<open>post_replacements\<close> (split on
  the separator, strip every segment, keep first occurrences, join again) is idempotent
  on every text whose segments are free of some character of the separator (for the
  default separator \<open>" | "\<close>: no segment contains a bar): the step returns a text, and
  applied to that text it returns it unchanged.
\<close>

theorem C8_dedup_idempotent_without_separator_char:
  assumes "c \<in> set spl" "\<forall>x \<in> set (split_scan spl text). c \<notin> set x"
  shows "\<exists>once. dedup_components spl text = Inr once \<and> dedup_components spl once = Inr once"
proof -
  let ?ds = "dedup_loop [] {} (split_scan spl text)"
  let ?once = "py_join spl ?ds"
  have ne: "spl \<noteq> []" using assms(1) by auto
  have one: "dedup_components spl text = Inr ?once"
    using ne by (simp add: dedup_components_def py_split_def bind_err_def)
  have "set ?ds = py_strip ` set (split_scan spl text)"
    using dedup_loop_set[of "[]" "split_scan spl text"] by simp
  then have free: "\<forall>x \<in> set ?ds. c \<notin> set x" using assms(2) set_py_strip by fastforce
  have "?ds \<noteq> []" using split_scan_nonempty by (rule dedup_loop_nonempty)
  then have resplit: "split_scan spl ?once = ?ds"
    using assms(1) free by (intro split_scan_join) auto
  have "dedup_components spl ?once = Inr (py_join spl (dedup_loop [] {} ?ds))"
    using ne resplit by (simp add: dedup_components_def py_split_def bind_err_def)
  then have "dedup_components spl ?once = Inr ?once" by (simp add: dedup_loop_idem)
  with one show ?thesis by blast
qed

text \<open>
  Claim C8 as stated, for every string, fails: the segment \<open>a |<TAB>\<close> is stripped to
  \<open>a |\<close>, the joined text \<open>a | | b | a\<close> splits differently, and the second
  application removes the final \<open>a\<close> as a duplicate.
\<close>

theorem C8_counterexample:
  "dedup_components default_splitter (''a |'' @ [CHR 0x09] @ '' | b | a'') = Inr ''a | | b | a''
   \<and> dedup_components default_splitter ''a | | b | a'' = Inr ''a | | b''"
  by code_simp

theorem C8_witness:
  "CHR ''|'' \<in> set default_splitter
   \<and> split_scan default_splitter ''b  | a | b'' = [''b '', ''a'', ''b'']
   \<and> dedup_components default_splitter ''b  | a | b'' = Inr ''b | a''
   \<and> dedup_components default_splitter ''b | a'' = Inr ''b | a''"
proof -
  have a: "CHR ''|'' \<in> set default_splitter" by (simp add: default_splitter_def)
  have s: "split_scan default_splitter ''b  | a | b'' = [''b '', ''a'', ''b'']" by code_simp
  have b: "\<forall>x \<in> set (split_scan default_splitter ''b  | a | b''). CHR ''|'' \<notin> set x"
    unfolding s by simp
  have e: "dedup_components default_splitter ''b  | a | b'' = Inr ''b | a''" by code_simp
  from C8_dedup_idempotent_without_separator_char[OF a b] e
  have "dedup_components default_splitter ''b | a'' = Inr ''b | a''" by auto
  with a s e show ?thesis by blast
qed

section \<open>Tagged stripping (claim C9)\<close>

lemma separator_token_label:
  assumes "is_separator_token t"
  shows "CHR ''/'' \<in> set t \<and> rev (takeWhile (\<lambda>c. c \<noteq> CHR ''/'') (rev t)) = separator_tag"
proof -
  from assms obtain b where t: "t = b @ ''/'' @ separator_tag"
    by (auto simp: is_separator_token_def suffix_def)
  then show ?thesis by (simp add: separator_tag_def)
qed

lemma label_separator_token:
  assumes "CHR ''/'' \<in> set t" "rev (takeWhile (\<lambda>c. c \<noteq> CHR ''/'') (rev t)) = separator_tag"
  shows "is_separator_token t"
proof -
  let ?P = "\<lambda>c. c \<noteq> CHR ''/''"
  have tw: "takeWhile ?P (rev t) = rev separator_tag" using assms(2) by (metis rev_rev_ident)
  have "dropWhile ?P (rev t) \<noteq> []" using assms(1) by (simp add: dropWhile_eq_Nil_conv)
  then obtain d ds where dw: "dropWhile ?P (rev t) = d # ds" by (cases "dropWhile ?P (rev t)") auto
  then have "\<not> ?P d" using hd_dropWhile[of ?P "rev t"] by auto
  then have d: "d = CHR ''/''" by simp
  have "rev t = takeWhile ?P (rev t) @ dropWhile ?P (rev t)" by simp
  then have "rev t = rev separator_tag @ CHR ''/'' # ds" using tw dw d by simp
  then have "rev (rev t) = rev (rev separator_tag @ CHR ''/'' # ds)" by simp
  then have "t = rev ds @ ''/'' @ separator_tag" by simp
  then show ?thesis unfolding is_separator_token_def suffix_def by blast
qed

lemma rsplit_slash_separator:
  "is_separator_token t \<Longrightarrow> \<exists>body. rsplit_slash t = Inr (body, separator_tag)"
  using separator_token_label[of t] by (simp add: rsplit_slash_def)

lemma rsplit_slash_other:
  "is_tagged_token t \<Longrightarrow> \<not> is_separator_token t \<Longrightarrow>
   \<exists>body c. rsplit_slash t = Inr (body, c) \<and> c \<noteq> separator_tag"
  using label_separator_token[of t] by (auto simp: rsplit_slash_def is_tagged_token_def)

lemma rsplit_slash_untagged: "\<not> is_tagged_token t \<Longrightarrow> rsplit_slash t = Inl ValueError"
  by (simp add: rsplit_slash_def is_tagged_token_def)

lemma tagged_start_loop_eq:
  "\<forall>t \<in> set ts. is_tagged_token t \<Longrightarrow>
   tagged_start_loop i ts = Inr (i + length (takeWhile is_separator_token ts))"
proof (induction ts arbitrary: i)
  case Nil then show ?case by simp
next
  case (Cons t ts)
  show ?case
  proof (cases "is_separator_token t")
    case True
    then obtain body where "rsplit_slash t = Inr (body, separator_tag)"
      using rsplit_slash_separator by blast
    then show ?thesis using True Cons by simp
  next
    case False
    then obtain body c where "rsplit_slash t = Inr (body, c)" "c \<noteq> separator_tag"
      using rsplit_slash_other Cons.prems by (metis list.set_intros(1))
    then show ?thesis using False by simp
  qed
qed

lemma tagged_end_loop_eq:
  "\<forall>t \<in> set ts. is_tagged_token t \<Longrightarrow>
   tagged_end_loop n j ts = Inr (n - (j + length (takeWhile is_separator_token ts)))"
proof (induction ts arbitrary: j)
  case Nil then show ?case by simp
next
  case (Cons t ts)
  show ?case
  proof (cases "is_separator_token t")
    case True
    then obtain body where "rsplit_slash t = Inr (body, separator_tag)"
      using rsplit_slash_separator by blast
    then show ?thesis using True Cons by simp
  next
    case False
    then obtain body c where "rsplit_slash t = Inr (body, c)" "c \<noteq> separator_tag"
      using rsplit_slash_other Cons.prems by (metis list.set_intros(1))
    then show ?thesis using False by simp
  qed
qed

lemma slice_between:
  "py_slice xs (length (takeWhile P xs)) (length xs - length (takeWhile P (rev xs)))
     = rev (dropWhile P (rev (dropWhile P xs)))"
proof -
  let ?ys = "dropWhile P xs"
  have dr: "drop (length (takeWhile P xs)) xs = ?ys" by (simp add: dropWhile_eq_drop)
  show ?thesis
  proof (cases "?ys = []")
    case True
    then have all: "\<forall>x \<in> set xs. P x" by (simp add: dropWhile_eq_Nil_conv)
    show ?thesis unfolding py_slice_def dr True by simp
  next
    case False
    then have nP: "\<not> P (hd ?ys)" by (rule hd_dropWhile)
    have xs: "xs = takeWhile P xs @ ?ys" by simp
    have "rev xs = rev ?ys @ rev (takeWhile P xs)" by (metis xs rev_append)
    moreover have "hd ?ys \<in> set (rev ?ys)" using False by simp
    ultimately have tw: "takeWhile P (rev xs) = takeWhile P (rev ?ys)"
      using nP by (metis takeWhile_append1)
    let ?b = "length (takeWhile P (rev ?ys))"
    have len: "length xs = length (takeWhile P xs) + length ?ys"
      by (metis xs length_append)
    have "py_slice xs (length (takeWhile P xs)) (length xs - length (takeWhile P (rev xs)))
            = take (length xs - ?b - length (takeWhile P xs)) ?ys"
      unfolding py_slice_def tw dr ..
    also have "length xs - ?b - length (takeWhile P xs) = length ?ys - ?b" using len by simp
    also have "take (length ?ys - ?b) ?ys = rev (drop ?b (rev ?ys))"
      by (simp add: rev_drop)
    also have "drop ?b (rev ?ys) = dropWhile P (rev ?ys)" by (simp add: dropWhile_eq_drop)
    finally show ?thesis .
  qed
qed

text \<open>Outside the tagged values: when the first token that is not a separator token has
  no slash, the unpacking of \<open>rsplit\<close> raises \<open>ValueError\<close>.\<close>

lemma strip_component_tagged_untagged_token:
  assumes "dropWhile is_separator_token (py_split_ws v) = t # rest" "\<not> is_tagged_token t"
  shows "strip_component S v True = Inl ValueError"
proof -
  have "tagged_start_loop i ts = Inl ValueError"
    if "dropWhile is_separator_token ts = t # rest" for i ts
    using that
  proof (induction ts arbitrary: i)
    case Nil then show ?case by simp
  next
    case (Cons a ts)
    show ?case
    proof (cases "is_separator_token a")
      case True
      then obtain body where "rsplit_slash a = Inr (body, separator_tag)"
        using rsplit_slash_separator by blast
      then show ?thesis using True Cons by simp
    next
      case False
      then have "a = t" using Cons.prems by simp
      then show ?thesis using assms(2) rsplit_slash_untagged by simp
    qed
  qed
  then show ?thesis using assms(1) by (simp add: strip_component_def bind_err_def Let_def)
qed

text \<open>
  Claim C9. Tagged token-aware stripping returns the empty string for every value whose
  whitespace-split tokens all carry the synthetic separator label (the empty value
  included), and otherwise, for a value made of tagged tokens, the space-joined
  subsequence of the tokens between the first and the last token that is not a separator
  token.
\<close>

theorem C9_strip_component_tagged:
  "((\<forall>t \<in> set (py_split_ws v). is_separator_token t) \<longrightarrow> strip_component S v True = Inr [])
   \<and> ((\<forall>t \<in> set (py_split_ws v). is_tagged_token t) \<longrightarrow>
        strip_component S v True =
          Inr (py_join '' '' (rev (dropWhile is_separator_token
                                     (rev (dropWhile is_separator_token (py_split_ws v)))))))"
proof -
  let ?ts = "py_split_ws v"
  have main: "strip_component S v True =
          Inr (py_join '' '' (rev (dropWhile is_separator_token
                                     (rev (dropWhile is_separator_token ?ts)))))"
    if tg: "\<forall>t \<in> set ?ts. is_tagged_token t"
  proof -
    have s: "tagged_start_loop 0 ?ts = Inr (length (takeWhile is_separator_token ?ts))"
      using tagged_start_loop_eq[OF tg, of 0] by simp
    have "\<forall>t \<in> set (rev ?ts). is_tagged_token t" using tg by simp
    then have e: "tagged_end_loop (length ?ts) 0 (rev ?ts)
                   = Inr (length ?ts - length (takeWhile is_separator_token (rev ?ts)))"
      using tagged_end_loop_eq[of "rev ?ts" "length ?ts" 0] by simp
    show ?thesis
      unfolding strip_component_def Let_def using s e
      by (simp add: bind_err_def slice_between)
  qed
  have "strip_component S v True = Inr []" if sp: "\<forall>t \<in> set ?ts. is_separator_token t"
  proof -
    have "\<forall>t \<in> set ?ts. is_tagged_token t"
      using sp separator_token_label by (auto simp: is_tagged_token_def)
    then have m: "strip_component S v True =
          Inr (py_join '' '' (rev (dropWhile is_separator_token
                                     (rev (dropWhile is_separator_token ?ts)))))"
      by (rule main)
    have dw: "dropWhile is_separator_token ?ts = []"
      using sp by (simp add: dropWhile_eq_Nil_conv)
    show ?thesis unfolding m dw by simp
  qed
  with main show ?thesis by blast
qed

theorem C9_witness:
  "py_split_ws '',/SEP  -/SEP'' = ['',/SEP'', ''-/SEP'']
   \<and> is_separator_token '',/SEP'' \<and> is_separator_token ''-/SEP''
   \<and> strip_component ref_services '',/SEP  -/SEP'' True = Inr []
   \<and> py_split_ws '',/SEP Main/road St/road -/SEP''
       = ['',/SEP'', ''Main/road'', ''St/road'', ''-/SEP'']
   \<and> is_tagged_token ''Main/road'' \<and> is_tagged_token ''St/road''
   \<and> strip_component ref_services '',/SEP Main/road St/road -/SEP'' True
       = Inr ''Main/road St/road''"
proof -
  have w1: "py_split_ws '',/SEP  -/SEP'' = ['',/SEP'', ''-/SEP'']" by code_simp
  have w2: "py_split_ws '',/SEP Main/road St/road -/SEP''
              = ['',/SEP'', ''Main/road'', ''St/road'', ''-/SEP'']" by code_simp
  have s1: "is_separator_token '',/SEP''" by code_simp
  have s2: "is_separator_token ''-/SEP''" by code_simp
  have t1: "is_tagged_token ''Main/road''" by code_simp
  have t2: "is_tagged_token ''St/road''" by code_simp
  have t3: "is_tagged_token '',/SEP''" by code_simp
  have t4: "is_tagged_token ''-/SEP''" by code_simp
  have a: "\<forall>t \<in> set (py_split_ws '',/SEP  -/SEP''). is_separator_token t"
    unfolding w1 using s1 s2 by simp
  have b: "\<forall>t \<in> set (py_split_ws '',/SEP Main/road St/road -/SEP''). is_tagged_token t"
    unfolding w2 using t1 t2 t3 t4 by simp
  have r1: "strip_component ref_services '',/SEP  -/SEP'' True = Inr []"
    using C9_strip_component_tagged[of "'',/SEP  -/SEP''" ref_services] a by blast
  have "strip_component ref_services '',/SEP Main/road St/road -/SEP'' True
          = Inr (py_join '' '' (rev (dropWhile is_separator_token
               (rev (dropWhile is_separator_token
                  (py_split_ws '',/SEP Main/road St/road -/SEP''))))))"
    using C9_strip_component_tagged[of "'',/SEP Main/road St/road -/SEP''" ref_services] b
    by blast
  also have "\<dots> = Inr ''Main/road St/road''"
    by code_simp
  finally show ?thesis using w1 w2 s1 s2 t1 t2 r1 by blast
qed

section \<open>Alias normalization (claim C6)\<close>

lemma aliases_table:
  "\<forall>(k, nk) \<in> set aliases. nk \<noteq> [] \<and> map_of aliases nk = None"
  by code_simp

lemma alias_target:
  assumes "map_of aliases k = Some nk"
  shows "nk \<noteq> []" and "map_of aliases nk = None"
proof -
  from assms have "(k, nk) \<in> set aliases" by (rule map_of_SomeD)
  with aliases_table have "nk \<noteq> [] \<and> map_of aliases nk = None" by blast
  then show "nk \<noteq> []" and "map_of aliases nk = None" by simp_all
qed

lemma dict_has_map_of: "dict_has d k \<longleftrightarrow> map_of d k \<noteq> None"
  by (simp add: dict_has_def dict_keys_def map_of_eq_None_iff)

lemma map_of_rename:
  "map_of (AList.update nk v (AList.delete k d)) = ((map_of d)(k := None))(nk \<mapsto> v)"
  by (simp add: update_conv' delete_conv')

lemma loop_skip_no_alias:
  "map_of aliases k = None \<Longrightarrow>
   replace_aliases_loop d (k # ks) = replace_aliases_loop d ks"
  by simp

lemma loop_skip_present:
  "map_of aliases k = Some nk \<Longrightarrow> map_of d nk \<noteq> None \<Longrightarrow>
   replace_aliases_loop d (k # ks) = replace_aliases_loop d ks"
  by (simp add: dict_has_map_of)

lemma loop_rename:
  "map_of aliases k = Some nk \<Longrightarrow> map_of d nk = None \<Longrightarrow> map_of d k = Some v \<Longrightarrow>
   replace_aliases_loop d (k # ks)
     = replace_aliases_loop (AList.update nk v (AList.delete k d)) ks"
  using alias_target(1)[of k nk] by (simp add: dict_has_map_of dict_pop_def)

lemma loop_raise:
  "map_of aliases k = Some nk \<Longrightarrow> map_of d nk = None \<Longrightarrow> map_of d k = None \<Longrightarrow>
   replace_aliases_loop d (k # ks) = (Inl KeyError, d)"
  using alias_target(1)[of k nk] by (simp add: dict_has_map_of dict_pop_def)

text \<open>A property that every renaming step preserves holds for the dictionary that the
  loop leaves.\<close>

lemma replace_aliases_loop_invariant:
  assumes "P d"
    and "\<And>d k nk v. P d \<Longrightarrow> map_of aliases k = Some nk \<Longrightarrow> map_of d nk = None \<Longrightarrow>
            map_of d k = Some v \<Longrightarrow> P (AList.update nk v (AList.delete k d))"
  shows "P (snd (replace_aliases_loop d ks))"
  using assms(1)
proof (induction ks arbitrary: d)
  case Nil then show ?case by simp
next
  case (Cons k ks)
  show ?case
  proof (cases "map_of aliases k")
    case None
    then show ?thesis using Cons by (simp only: loop_skip_no_alias)
  next
    case (Some nk)
    show ?thesis
    proof (cases "map_of d nk")
      case (Some w)
      then show ?thesis using \<open>map_of aliases k = Some nk\<close> Cons
        by (simp only: loop_skip_present[of k nk d] option.distinct not_False_eq_True)
    next
      case None
      show ?thesis
      proof (cases "map_of d k")
        case (Some v)
        have "P (AList.update nk v (AList.delete k d))"
          using Cons.prems \<open>map_of aliases k = Some nk\<close> None Some by (rule assms(2))
        then have "P (snd (replace_aliases_loop (AList.update nk v (AList.delete k d)) ks))"
          by (rule Cons.IH)
        then show ?thesis
          using loop_rename[OF \<open>map_of aliases k = Some nk\<close> None Some] by simp
      next
        case None2: None
        show ?thesis
          using loop_raise[OF \<open>map_of aliases k = Some nk\<close> None None2] Cons.prems by simp
      qed
    qed
  qed
qed

lemma loop_keeps_unaliased:
  assumes "map_of aliases k0 = None" "map_of d k0 = Some v0"
  shows "map_of (snd (replace_aliases_loop d ks)) k0 = Some v0"
proof (rule replace_aliases_loop_invariant[where P = "\<lambda>d. map_of d k0 = Some v0"])
  show "map_of d k0 = Some v0" by (rule assms(2))
next
  fix d k nk v
  assume a: "map_of d k0 = Some v0" "map_of aliases k = Some nk" "map_of d nk = None"
    "map_of d k = Some v"
  have "k \<noteq> k0" using a(2) assms(1) by auto
  moreover have "nk \<noteq> k0" using a(1,3) by auto
  ultimately show "map_of (AList.update nk v (AList.delete k d)) k0 = Some v0"
    using a(1) by (simp add: map_of_rename)
qed

lemma loop_keeps_shadowed:
  assumes "map_of aliases k0 = Some nk0" "map_of d nk0 = Some w"
  shows "map_of (snd (replace_aliases_loop d ks)) k0 = map_of d k0"
proof -
  define x where "x = map_of d k0"
  have "map_of (snd (replace_aliases_loop d ks)) nk0 = Some w
        \<and> map_of (snd (replace_aliases_loop d ks)) k0 = x"
  proof (rule replace_aliases_loop_invariant[where
           P = "\<lambda>d. map_of d nk0 = Some w \<and> map_of d k0 = x"])
    show "map_of d nk0 = Some w \<and> map_of d k0 = x" using assms(2) x_def by simp
  next
    fix d k nk v
    assume a: "map_of d nk0 = Some w \<and> map_of d k0 = x" "map_of aliases k = Some nk"
      "map_of d nk = None" "map_of d k = Some v"
    have n0: "map_of aliases nk0 = None" using assms(1) by (rule alias_target(2))
    have n1: "map_of aliases nk = None" using a(2) by (rule alias_target(2))
    have "nk \<noteq> nk0" using a(1,3) by auto
    moreover have "k \<noteq> nk0" using a(2) n0 by auto
    moreover have "k \<noteq> k0" using a(2) assms(1) \<open>nk \<noteq> nk0\<close> by auto
    moreover have "nk \<noteq> k0" using n1 assms(1) by auto
    ultimately show "map_of (AList.update nk v (AList.delete k d)) nk0 = Some w
        \<and> map_of (AList.update nk v (AList.delete k d)) k0 = x"
      using a(1) by (simp add: map_of_rename)
  qed
  then show ?thesis using x_def by simp
qed

lemma loop_alias_key_stays_absent:
  assumes "map_of aliases k0 = Some nk0" "map_of d k0 = None"
  shows "map_of (snd (replace_aliases_loop d ks)) k0 = None"
proof (rule replace_aliases_loop_invariant[where P = "\<lambda>d. map_of d k0 = None"])
  show "map_of d k0 = None" by (rule assms(2))
next
  fix d k nk v
  assume a: "map_of d k0 = None" "map_of aliases k = Some nk" "map_of d nk = None"
    "map_of d k = Some v"
  have "map_of aliases nk = None" using a(2) by (rule alias_target(2))
  then have "nk \<noteq> k0" using assms(1) by auto
  then show "map_of (AList.update nk v (AList.delete k d)) k0 = None"
    using a(1) by (simp add: map_of_rename)
qed

lemma keys_reachable_tail: "keys_reachable d (k # ks) \<Longrightarrow> keys_reachable d ks"
  by (simp add: keys_reachable_def)

lemma keys_reachable_rename:
  assumes "keys_reachable d (k # ks)" "map_of aliases k = Some nk"
  shows "keys_reachable (AList.update nk v (AList.delete k d)) ks"
  unfolding keys_reachable_def
proof (intro ballI allI impI)
  fix k' nk'
  assume k': "k' \<in> set ks" and al: "map_of aliases k' = Some nk'"
  let ?d1 = "AList.update nk v (AList.delete k d)"
  have n': "map_of aliases nk' = None" using al by (rule alias_target(2))
  show "map_of ?d1 k' \<noteq> None \<or> map_of ?d1 nk' \<noteq> None"
  proof (cases "k' = k")
    case True
    then have "nk' = nk" using al assms(2) by simp
    then show ?thesis by (simp add: map_of_rename)
  next
    case False
    from assms(1) k' al have "map_of d k' \<noteq> None \<or> map_of d nk' \<noteq> None"
      by (simp add: keys_reachable_def)
    moreover have "nk' \<noteq> k" using n' assms(2) by auto
    ultimately show ?thesis using False by (auto simp: map_of_rename)
  qed
qed

lemma loop_no_raise:
  "keys_reachable d ks \<Longrightarrow> fst (replace_aliases_loop d ks) = Inr ()"
proof (induction ks arbitrary: d)
  case Nil then show ?case by simp
next
  case (Cons k ks)
  show ?case
  proof (cases "map_of aliases k")
    case None
    then show ?thesis using Cons keys_reachable_tail by (simp only: loop_skip_no_alias)
  next
    case (Some nk)
    show ?thesis
    proof (cases "map_of d nk")
      case Some2: (Some w)
      have "replace_aliases_loop d (k # ks) = replace_aliases_loop d ks"
        using Some Some2 by (intro loop_skip_present) auto
      then show ?thesis using Cons keys_reachable_tail by simp
    next
      case None
      have "map_of d k \<noteq> None" using Cons.prems Some None by (simp add: keys_reachable_def)
      then obtain v where v: "map_of d k = Some v" by auto
      have "keys_reachable (AList.update nk v (AList.delete k d)) ks"
        using Cons.prems Some by (rule keys_reachable_rename)
      then have "fst (replace_aliases_loop (AList.update nk v (AList.delete k d)) ks) = Inr ()"
        by (rule Cons.IH)
      then show ?thesis using loop_rename[OF Some None v] by simp
    qed
  qed
qed

lemma loop_renames_first:
  assumes "map_of aliases k = Some nk"
  shows "keys_reachable d (pre @ k # post) \<Longrightarrow>
     \<forall>k' \<in> set pre. map_of aliases k' \<noteq> Some nk \<Longrightarrow>
     map_of d nk = None \<Longrightarrow> map_of d k = Some v \<Longrightarrow>
     map_of (snd (replace_aliases_loop d (pre @ k # post))) nk = Some v
     \<and> map_of (snd (replace_aliases_loop d (pre @ k # post))) k = None
     \<and> (\<forall>k2. map_of aliases k2 = Some nk \<longrightarrow> k2 \<noteq> k \<longrightarrow>
            map_of (snd (replace_aliases_loop d (pre @ k # post))) k2 = map_of d k2)"
proof (induction pre arbitrary: d)
  case Nil
  let ?d1 = "AList.update nk v (AList.delete k d)"
  have nk: "map_of aliases nk = None" using assms by (rule alias_target(2))
  have "k \<noteq> nk" using nk assms by auto
  then have d1: "map_of ?d1 nk = Some v" "map_of ?d1 k = None" by (simp_all add: map_of_rename)
  have "replace_aliases_loop d ([] @ k # post) = replace_aliases_loop ?d1 post"
    using loop_rename[OF assms Nil.prems(3,4)] by simp
  have eq: "replace_aliases_loop d ([] @ k # post) = replace_aliases_loop ?d1 post"
    using loop_rename[OF assms Nil.prems(3,4)] by simp
  have others: "map_of (snd (replace_aliases_loop ?d1 post)) k2 = map_of d k2"
    if "map_of aliases k2 = Some nk" "k2 \<noteq> k" for k2
  proof -
    have "k2 \<noteq> nk" using nk that(1) by auto
    then have "map_of ?d1 k2 = map_of d k2" using that(2) by (simp add: map_of_rename)
    then show ?thesis using loop_keeps_shadowed[OF that(1) d1(1), of post] by simp
  qed
  show ?case
    unfolding eq
    using loop_keeps_unaliased[OF nk d1(1)] loop_alias_key_stays_absent[OF assms d1(2)] others
    by blast
next
  case (Cons p pre)
  have reach: "keys_reachable d (p # (pre @ k # post))" using Cons.prems(1) by simp
  have tail: "keys_reachable d (pre @ k # post)" using reach by (rule keys_reachable_tail)
  have pre: "\<forall>k' \<in> set pre. map_of aliases k' \<noteq> Some nk" using Cons.prems(2) by simp
  have pk: "map_of aliases p \<noteq> Some nk" using Cons.prems(2) by simp
  show ?case
  proof (cases "map_of aliases p")
    case None
    have "replace_aliases_loop d ((p # pre) @ k # post) = replace_aliases_loop d (pre @ k # post)"
      using None by simp
    then show ?thesis using Cons.IH[OF tail pre Cons.prems(3,4)] by simp
  next
    case (Some np)
    show ?thesis
    proof (cases "map_of d np")
      case Some2: (Some w)
      have "replace_aliases_loop d (p # (pre @ k # post)) = replace_aliases_loop d (pre @ k # post)"
        using Some Some2 by (intro loop_skip_present) auto
      then show ?thesis using Cons.IH[OF tail pre Cons.prems(3,4)] by simp
    next
      case None
      have "map_of d p \<noteq> None" using reach Some None by (simp add: keys_reachable_def)
      then obtain vp where vp: "map_of d p = Some vp" by auto
      let ?d1 = "AList.update np vp (AList.delete p d)"
      have np: "map_of aliases np = None" using Some by (rule alias_target(2))
      have "np \<noteq> nk" using pk Some by auto
      moreover have "p \<noteq> k" using pk assms by auto
      moreover have "np \<noteq> k" using np assms by auto
      ultimately have d1: "map_of ?d1 nk = None" "map_of ?d1 k = Some v"
        using Cons.prems(3,4) by (simp_all add: map_of_rename)
      have r1: "keys_reachable ?d1 (pre @ k # post)" using reach Some by (rule keys_reachable_rename)
      have eq: "replace_aliases_loop d ((p # pre) @ k # post)
                  = replace_aliases_loop ?d1 (pre @ k # post)"
        using loop_rename[OF Some None vp] by simp
      have same: "map_of ?d1 k2 = map_of d k2" if "map_of aliases k2 = Some nk" for k2
      proof -
        have "k2 \<noteq> p" using that pk by auto
        moreover have "k2 \<noteq> np" using that np by auto
        ultimately show ?thesis by (simp add: map_of_rename)
      qed
      show ?thesis unfolding eq using Cons.IH[OF r1 pre d1] same by simp
    qed
  qed
qed

lemma keys_reachable_keys: "keys_reachable d (dict_keys d)"
  by (auto simp: keys_reachable_def dict_keys_def map_of_eq_None_iff)

lemma replace_aliases_no_raise: "fst (replace_aliases d) = Inr ()"
  unfolding replace_aliases_def using keys_reachable_keys by (rule loop_no_raise)

text \<open>
  Claim C6, as the code has it. \<open>replace_aliases\<close> never raises. A key without alias
  keeps its value. A raw key whose canonical name is already a key is left in place
  under its raw name, and the value under the canonical name survives. For a canonical
  name that is not yet a key, the first raw key (in the order of \<open>keys()\<close>) with that
  canonical name is renamed: it is removed and the canonical name receives its value;
  every other raw key with the same canonical name is left in place.
\<close>

theorem C6_replace_aliases:
  "fst (replace_aliases d) = Inr ()
   \<and> (map_of aliases k = None \<longrightarrow> dict_has d k \<longrightarrow>
        map_of (snd (replace_aliases d)) k = map_of d k)
   \<and> (map_of aliases k = Some nk \<longrightarrow> dict_has d nk \<longrightarrow>
        map_of (snd (replace_aliases d)) k = map_of d k
        \<and> map_of (snd (replace_aliases d)) nk = map_of d nk)
   \<and> (map_of aliases k = Some nk \<longrightarrow> \<not> dict_has d nk \<longrightarrow> dict_keys d = pre @ k # post \<longrightarrow>
        (\<forall>k' \<in> set pre. map_of aliases k' \<noteq> Some nk) \<longrightarrow>
        map_of (snd (replace_aliases d)) nk = map_of d k
        \<and> map_of (snd (replace_aliases d)) k = None
        \<and> (\<forall>k2. map_of aliases k2 = Some nk \<longrightarrow> k2 \<noteq> k \<longrightarrow>
              map_of (snd (replace_aliases d)) k2 = map_of d k2))"
proof (intro conjI impI)
  show "fst (replace_aliases d) = Inr ()" by (rule replace_aliases_no_raise)
next
  assume "map_of aliases k = None" "dict_has d k"
  then obtain v where "map_of d k = Some v" by (auto simp: dict_has_map_of)
  with \<open>map_of aliases k = None\<close>
  show "map_of (snd (replace_aliases d)) k = map_of d k"
    unfolding replace_aliases_def by (simp add: loop_keeps_unaliased)
next
  assume a: "map_of aliases k = Some nk" "dict_has d nk"
  then obtain w where w: "map_of d nk = Some w" by (auto simp: dict_has_map_of)
  show "map_of (snd (replace_aliases d)) k = map_of d k"
    unfolding replace_aliases_def using a(1) w by (rule loop_keeps_shadowed)
  have "map_of aliases nk = None" using a(1) by (rule alias_target(2))
  then show "map_of (snd (replace_aliases d)) nk = map_of d nk"
    unfolding replace_aliases_def using w by (simp add: loop_keeps_unaliased)
next
  assume a: "map_of aliases k = Some nk" "\<not> dict_has d nk" "dict_keys d = pre @ k # post"
    "\<forall>k' \<in> set pre. map_of aliases k' \<noteq> Some nk"
  have "dict_has d k" using a(3) by (simp add: dict_has_def)
  then obtain v where v: "map_of d k = Some v" by (auto simp: dict_has_map_of)
  have n: "map_of d nk = None" using a(2) by (simp add: dict_has_map_of)
  have r: "keys_reachable d (pre @ k # post)" using keys_reachable_keys[of d] a(3) by simp
  note first = loop_renames_first[OF a(1) r a(4) n v]
  show "map_of (snd (replace_aliases d)) nk = map_of d k"
    unfolding replace_aliases_def a(3) using first v by simp
  show "map_of (snd (replace_aliases d)) k = None"
    unfolding replace_aliases_def a(3) using first by simp
  show "\<forall>k2. map_of aliases k2 = Some nk \<longrightarrow> k2 \<noteq> k \<longrightarrow>
              map_of (snd (replace_aliases d)) k2 = map_of d k2"
    unfolding replace_aliases_def a(3) using first by simp
qed

text \<open>
  Claim C6 as stated says that a raw entry whose canonical name is already a key is
  dropped from the set. It is not: with \<open>street\<close> and \<open>road\<close> both present, the
  dictionary is returned unchanged and still has the key \<open>street\<close>.
\<close>

theorem C6_counterexample:
  "map_of aliases ''street'' = Some ''road''
   \<and> replace_aliases [(''street'', ''A''), (''road'', ''B'')]
       = (Inr (), [(''street'', ''A''), (''road'', ''B'')])"
  by code_simp

theorem C6_witness:
  "map_of aliases ''city'' = None \<and> dict_has example_components ''city''
   \<and> map_of (snd (replace_aliases example_components)) ''city'' = Some ''Madrid''
   \<and> map_of aliases ''addr:city'' = Some ''city''
   \<and> map_of (snd (replace_aliases example_components)) ''addr:city'' = Some ''M''
   \<and> map_of aliases ''street'' = Some ''road'' \<and> \<not> dict_has example_components ''road''
   \<and> dict_keys example_components = [''name''] @ ''street'' # [''addr:street'', ''city'', ''addr:city'']
   \<and> map_of aliases ''name'' = Some ''house''
   \<and> map_of (snd (replace_aliases example_components)) ''road'' = Some ''A''
   \<and> map_of (snd (replace_aliases example_components)) ''street'' = None
   \<and> map_of (snd (replace_aliases example_components)) ''addr:street'' = Some ''B''"
proof -
  let ?d = example_components
  have h1: "map_of aliases ''city'' = None" by code_simp
  have h2: "dict_has ?d ''city''" by code_simp
  have h3: "map_of aliases ''addr:city'' = Some ''city''" by code_simp
  have h4: "map_of aliases ''street'' = Some ''road''" by code_simp
  have h5: "\<not> dict_has ?d ''road''" by code_simp
  have h6: "dict_keys ?d = [''name''] @ ''street'' # [''addr:street'', ''city'', ''addr:city'']"
    by code_simp
  have h0: "map_of aliases ''name'' = Some ''house''" by code_simp
  then have h7: "\<forall>k' \<in> set [''name'']. map_of aliases k' \<noteq> Some ''road''" by simp
  have h8: "map_of aliases ''addr:street'' = Some ''road''" by code_simp
  have v1: "map_of ?d ''city'' = Some ''Madrid''" by code_simp
  have v2: "map_of ?d ''addr:city'' = Some ''M''" by code_simp
  have v3: "map_of ?d ''street'' = Some ''A''" by code_simp
  have v4: "map_of ?d ''addr:street'' = Some ''B''" by code_simp
  have r1: "map_of (snd (replace_aliases ?d)) ''city'' = Some ''Madrid''"
    using C6_replace_aliases[of ?d "''city''"] h1 h2 v1 by simp
  have r2: "map_of (snd (replace_aliases ?d)) ''addr:city'' = Some ''M''"
    using C6_replace_aliases[of ?d "''addr:city''" "''city''"] h3 h2 v2 by simp
  note inst = C6_replace_aliases[of ?d "''street''" "''road''" "[''name'']"
      "[''addr:street'', ''city'', ''addr:city'']"]
  have r3: "map_of (snd (replace_aliases ?d)) ''road'' = Some ''A''"
    using inst h4 h5 h6 h7 v3 by simp
  have r4: "map_of (snd (replace_aliases ?d)) ''street'' = None"
    using inst h4 h5 h6 h7 by simp
  have "''addr:street'' \<noteq> ''street''" by simp
  then have r5: "map_of (snd (replace_aliases ?d)) ''addr:street'' = Some ''B''"
    using inst h4 h5 h6 h7 h8 v4 by simp
  show ?thesis using h0 h1 h2 h3 h4 h5 h6 r1 r2 r3 r4 r5 by blast
qed

section \<open>The caller's dictionary and no-result (claim C10)\<close>

lemma replace_aliases_pair: "replace_aliases d = (Inr (), snd (replace_aliases d))"
  using replace_aliases_no_raise[of d] by (metis prod.collapse)

lemma replace_aliases_changes:
  assumes "dict_has d k" "map_of aliases k = Some nk" "\<not> dict_has d nk"
  shows "snd (replace_aliases d) \<noteq> d"
proof -
  have "\<exists>x \<in> set (dict_keys d). map_of aliases x = Some nk"
    using assms(1,2) by (auto simp: dict_has_def)
  then obtain pre x post where sp: "dict_keys d = pre @ x # post"
    and x: "map_of aliases x = Some nk"
    and pre: "\<forall>y \<in> set pre. map_of aliases y \<noteq> Some nk"
    using split_list_first_prop[of "dict_keys d" "\<lambda>x. map_of aliases x = Some nk"] by blast
  have "dict_has d x" using sp by (simp add: dict_has_def)
  then obtain v where v: "map_of d x = Some v" by (auto simp: dict_has_map_of)
  have n: "map_of d nk = None" using assms(3) by (simp add: dict_has_map_of)
  have r: "keys_reachable d (pre @ x # post)" using keys_reachable_keys[of d] sp by simp
  have "map_of (snd (replace_aliases d)) x = None"
    unfolding replace_aliases_def sp using loop_renames_first[OF x r pre n v] by simp
  with v show ?thesis by auto
qed


lemma format_address_unresolved:
  assumes "map_of (config F) (py_upper country) = None
           \<or> (\<exists>tv. map_of (config F) (py_upper country) = Some tv \<and> \<not> truthy tv)"
  shows "format_address S F country d m tg a = (Inr None, d)"
  using assms by (auto simp: format_address_def)

lemma format_address_gate:
  assumes "map_of (config F) (py_upper country) = Some (TemplateRecord r)"
    "truthy (TemplateRecord r)" "address_template r = Some tt"
    "\<not> minimal_components (if a then snd (replace_aliases d) else d)"
  shows "format_address S F country d True tg a
           = (Inr None, if a then snd (replace_aliases d) else d)"
proof (cases a)
  case True
  have p: "replace_aliases d = (Inr (), snd (replace_aliases d))" by (rule replace_aliases_pair)
  have "\<not> minimal_components (snd (replace_aliases d))" using assms(4) True by simp
  then show ?thesis
    unfolding format_address_def using assms(1,2,3) True
    by (subst p) (simp del: truthy.simps)
next
  case False
  then show ?thesis
    unfolding format_address_def using assms by (simp del: truthy.simps)
qed

text \<open>
  Claim C10. When \<open>format_address\<close> returns no-result because the country code resolves
  to no template record, the caller's dictionary is left unmodified. When it returns
  no-result because the minimal-components gate fails with alias normalization enabled,
  the dictionary it leaves is the alias-normalized one, which differs from the one
  supplied whenever some key has an alias whose canonical name is not a key.
\<close>

theorem C10_no_result_and_mutation:
  "((map_of (config F) (py_upper country) = None
      \<or> (\<exists>tv. map_of (config F) (py_upper country) = Some tv \<and> \<not> truthy tv))
      \<longrightarrow> format_address S F country d m tg a = (Inr None, d))
   \<and> (map_of (config F) (py_upper country) = Some (TemplateRecord r) \<longrightarrow>
        truthy (TemplateRecord r) \<longrightarrow> address_template r \<noteq> None \<longrightarrow>
        \<not> minimal_components (snd (replace_aliases d)) \<longrightarrow>
        format_address S F country d True tg True = (Inr None, snd (replace_aliases d)))
   \<and> (dict_has d k \<longrightarrow> map_of aliases k = Some nk \<longrightarrow> \<not> dict_has d nk \<longrightarrow>
        snd (replace_aliases d) \<noteq> d)"
proof (intro conjI impI)
  assume "map_of (config F) (py_upper country) = None
      \<or> (\<exists>tv. map_of (config F) (py_upper country) = Some tv \<and> \<not> truthy tv)"
  then show "format_address S F country d m tg a = (Inr None, d)"
    by (rule format_address_unresolved)
next
  assume a: "map_of (config F) (py_upper country) = Some (TemplateRecord r)"
    "truthy (TemplateRecord r)" "address_template r \<noteq> None"
    "\<not> minimal_components (snd (replace_aliases d))"
  from a(3) obtain tt where tt: "address_template r = Some tt" by auto
  show "format_address S F country d True tg True = (Inr None, snd (replace_aliases d))"
    using format_address_gate[OF a(1,2) tt, of True d S tg] a(4) by simp
next
  assume "dict_has d k" "map_of aliases k = Some nk" "\<not> dict_has d nk"
  then show "snd (replace_aliases d) \<noteq> d" by (rule replace_aliases_changes)
qed

theorem C10_witness:
  "map_of (config example_formatter) (py_upper ''zz'') = None
   \<and> format_address ref_services example_formatter ''zz'' [(''addr:city'', ''Paris'')] True True True
       = (Inr None, [(''addr:city'', ''Paris'')])
   \<and> (\<exists>r. map_of (config example_formatter) (py_upper ''es'') = Some (TemplateRecord r)
          \<and> truthy (TemplateRecord r) \<and> address_template r \<noteq> None)
   \<and> \<not> minimal_components (snd (replace_aliases [(''addr:city'', ''Paris'')]))
   \<and> dict_has [(''addr:city'', ''Paris'')] ''addr:city''
   \<and> map_of aliases ''addr:city'' = Some ''city''
   \<and> \<not> dict_has [(''addr:city'', ''Paris'')] ''city''
   \<and> format_address ref_services example_formatter ''es'' [(''addr:city'', ''Paris'')] True True True
       = (Inr None, [(''city'', ''Paris'')])
   \<and> snd (replace_aliases [(''addr:city'', ''Paris'')]) \<noteq> [(''addr:city'', ''Paris'')]"
proof -
  let ?d = "[(''addr:city'', ''Paris'')]"
  define r where "r = \<lparr>address_template =
            Some (''{{{house}}}'' @ [CHR 0x0A] @ ''{{{road}}}, {{{house_number}}}'' @ [CHR 0x0A]
                  @ ''{{{suburb}}}'' @ [CHR 0x0A] @ ''{{{postcode}}} {{{city}}}''),
          replace = None, postformat_replace = None, other_keys = []\<rparr>"
  have h1: "map_of (config example_formatter) (py_upper ''zz'') = None" by code_simp
  have h2: "map_of (config example_formatter) (py_upper ''es'') = Some (TemplateRecord r)"
    unfolding r_def by code_simp
  have h3: "truthy (TemplateRecord r)" unfolding r_def by simp
  have h4: "address_template r \<noteq> None" unfolding r_def by simp
  have rd: "snd (replace_aliases ?d) = [(''city'', ''Paris'')]" by code_simp
  have h5: "\<not> minimal_components (snd (replace_aliases ?d))" unfolding rd by code_simp
  have h6: "dict_has ?d ''addr:city''" by code_simp
  have h7: "map_of aliases ''addr:city'' = Some ''city''" by code_simp
  have h8: "\<not> dict_has ?d ''city''" by code_simp
  note inst1 = C10_no_result_and_mutation[where F = example_formatter and country = "''zz''"
      and d = ?d and S = ref_services and m = True and tg = True and a = True]
  note inst2 = C10_no_result_and_mutation[where F = example_formatter and country = "''es''"
      and r = r and d = ?d and k = "''addr:city''" and nk = "''city''" and S = ref_services
      and tg = True]
  have c1: "format_address ref_services example_formatter ''zz'' ?d True True True = (Inr None, ?d)"
    using inst1 h1 by blast
  have c2: "format_address ref_services example_formatter ''es'' ?d True True True
              = (Inr None, snd (replace_aliases ?d))"
    using inst2 h2 h3 h4 h5 by blast
  have c3: "snd (replace_aliases ?d) \<noteq> ?d" using inst2 h6 h7 h8 by blast
  show ?thesis using h1 h2 h3 h4 h5 h6 h7 h8 c1 c2[unfolded rd] c3 by blast
qed

section \<open>Unknown country codes (claim C1)\<close>

text \<open>
  Claim C1, as the code has it. For a country code whose upper-cased form is absent from
  the rule table, \<open>format_address\<close> returns no-result, without raising and without
  touching the components, whatever the switches; it does not consult the \<open>default\<close>
  record. The fall-back belongs to \<open>country_template\<close>, which \<open>format_address\<close>
  does not call: for such a code it returns the \<open>default\<close> record, and raises
  \<open>KeyError\<close> when the table has none.
\<close>

theorem C1_unknown_country_no_result:
  assumes "map_of (config F) (py_upper country) = None"
  shows "format_address S F country d m tg a = (Inr None, d)
   \<and> (map_of (config F) ''default'' = Some dflt \<longrightarrow>
        country_template F (py_upper country) = Inr dflt)
   \<and> (map_of (config F) ''default'' = None \<longrightarrow>
        country_template F (py_upper country) = Inl KeyError)"
  using assms by (simp add: format_address_def country_template_def)

text \<open>
  Claim C1 as stated fails: the example table has a \<open>default\<close> record and no entry
  \<open>ZZ\<close>, the components satisfy the minimal-components gate, and \<open>format_address\<close>
  returns no-result.
\<close>

theorem C1_counterexample:
  "map_of (config example_formatter) (py_upper ''zz'') = None
   \<and> map_of (config example_formatter) ''default'' \<noteq> None
   \<and> format_address ref_services example_formatter ''zz''
        [(''road'', ''Main St''), (''house_number'', ''2'')] True False True
       = (Inr None, [(''road'', ''Main St''), (''house_number'', ''2'')])"
  by code_simp

theorem C1_witness:
  "map_of (config example_formatter) (py_upper ''zz'') = None
   \<and> format_address ref_services example_formatter ''zz''
        [(''road'', ''Main St''), (''house_number'', ''2'')] False False False
       = (Inr None, [(''road'', ''Main St''), (''house_number'', ''2'')])
   \<and> (\<exists>dflt. map_of (config example_formatter) ''default'' = Some dflt
          \<and> country_template example_formatter (py_upper ''zz'') = Inr dflt)"
proof -
  have h: "map_of (config example_formatter) (py_upper ''zz'') = None" by code_simp
  have "map_of (config example_formatter) ''default'' \<noteq> None" by code_simp
  then obtain dflt where d: "map_of (config example_formatter) ''default'' = Some dflt" by auto
  note inst = C1_unknown_country_no_result[OF h, where S = ref_services
      and d = "[(''road'', ''Main St''), (''house_number'', ''2'')]" and m = False
      and tg = False and a = False and dflt = dflt]
  show ?thesis using h d inst by blast
qed

section \<open>The minimal-components gate (claim C3)\<close>




end
